theory Spec2Isabelle
  imports
    Main
    "HOL-Library.Word"
    "HOL-Library.AList"
    "HOL-Library.Char_ord"
    "HOL-Library.List_Lexorder"
    "HOL-Library.Multiset"
begin

unbundle bit_operations_syntax

section \<open>Data model of main.go\<close>

text \<open>
  The program is a single Go file. Its functions \<open>processFolder\<close>, \<open>processFile\<close>,
  \<open>writeLogAtomic\<close> and \<open>renameFolderSafe\<close> are embedded below, each over an explicit
  model of what they touch: the file system, the wall clock, and the results of the
  standard-library calls (\<open>os\<close>, \<open>io\<close>, \<open>crypto/md5\<close>, \<open>encoding/json\<close>).
  Go strings are byte sequences, so a Go \<open>string\<close> is a \<open>char list\<close> and the
  comparison \<open><\<close> on strings is the lexicographic order on bytes.
\<close>

type_synonym byte = "8 word"

text \<open>
  A path is kept as the sequence of its components (a cleaned path): \<open>filepath.Join\<close>
  adds a component, \<open>filepath.Base\<close> is the last one and \<open>filepath.Dir\<close> drops it.
  The empty sequence is the directory \<open>.\<close> the process runs in.
\<close>

type_synonym path = "string list"

definition filepath_Join :: "path \<Rightarrow> string \<Rightarrow> path" where
  "filepath_Join dir name = dir @ [name]"

definition filepath_Base :: "path \<Rightarrow> string" where
  "filepath_Base p = (if p = [] then ''.'' else last p)"

definition filepath_Dir :: "path \<Rightarrow> path" where
  "filepath_Dir p = butlast p"

text \<open>\<open>type LogEntry struct\<close>, lines 20 to 26.\<close>

record LogEntry =
  Filename :: string
  Status :: string
  MD5 :: string
  Error :: string
  Timestamp :: string

text \<open>What \<open>os.ReadDir\<close> returns for one entry: its name and whether it is a directory.\<close>

record DirEntry =
  Name :: string
  IsDir :: bool

text \<open>A reading of the clock, \<open>time.Now().UTC()\<close>, as its calendar fields.\<close>

record utc =
  year :: nat
  month :: nat
  day :: nat
  hour :: nat
  minute :: nat
  second :: nat

subsection \<open>The file system and the environment\<close>

text \<open>
  The file system is an association list from paths to nodes; a lookup takes the first
  binding of a path. A directory's entries are the bound paths one component below it.
\<close>

datatype node = FileN "byte list" | DirN

type_synonym filesys = "(path \<times> node) list"

text \<open>The system calls the program makes, as the keys of injected failures.\<close>

datatype syscall =
    ReadDirOp path
  | OpenOp path
  | ReadOp path
  | CreateOp path
  | WriteOp path
  | SyncOp path
  | CloseOp path
  | RemoveOp path
  | RenameOp path path

text \<open>
  The environment is everything the program does not decide: the clock reading at each
  step, which system calls fail (with the text of the error) although the file system
  would allow them, how many bytes a failing write leaves behind, the order in which
  running tasks finish, and the two library functions whose results the program only
  passes on: the MD5 digest of a byte sequence (16 bytes, \<open>md5.Size\<close>) and
  \<open>json.MarshalIndent\<close> on the log entries.
\<close>

record env =
  clock :: "nat \<Rightarrow> utc"
  fault :: "syscall \<Rightarrow> string option"
  short_write :: nat
  completion :: "nat list"
  md5_digest :: "byte list \<Rightarrow> 128 word"
  json_MarshalIndent :: "LogEntry list \<Rightarrow> string + byte list"

text \<open>The state the program changes: the file system, and the number of steps taken.\<close>

record world =
  fsys :: filesys
  tick :: nat

definition advance :: "world \<Rightarrow> world" where
  "advance w = w\<lparr>tick := Suc (tick w)\<rparr>"

definition time_Now :: "env \<Rightarrow> world \<Rightarrow> utc" where
  "time_Now E w = clock E (tick w)"

definition lookup :: "world \<Rightarrow> path \<Rightarrow> node option" where
  "lookup w p = map_of (fsys w) p"

text \<open>Go's \<open>strings.HasPrefix\<close>, \<open>strings.TrimPrefix\<close>, and \<open>strings.SplitN(s, sep, 2)\<close>
  for a separator of one byte.\<close>

definition strings_HasPrefix :: "string \<Rightarrow> string \<Rightarrow> bool" where
  "strings_HasPrefix s pre = (take (length pre) s = pre)"

definition strings_TrimPrefix :: "string \<Rightarrow> string \<Rightarrow> string" where
  "strings_TrimPrefix s pre = (if strings_HasPrefix s pre then drop (length pre) s else s)"

definition strings_SplitN2 :: "string \<Rightarrow> char \<Rightarrow> string list" where
  "strings_SplitN2 s sep =
     (case dropWhile (\<lambda>c. c \<noteq> sep) s of
        [] \<Rightarrow> [s]
      | _ # rest \<Rightarrow> [takeWhile (\<lambda>c. c \<noteq> sep) s, rest])"

subsection \<open>System calls\<close>

text \<open>
  Every call takes one step. \<open>os.Stat\<close> answers \<open>err == nil\<close> exactly when a node is
  bound at the path.
\<close>

definition os_Stat :: "env \<Rightarrow> world \<Rightarrow> path \<Rightarrow> bool \<times> world" where
  "os_Stat E w p = (lookup w p \<noteq> None, advance w)"

definition children :: "filesys \<Rightarrow> path \<Rightarrow> string list" where
  "children fs dir =
     sort (remdups (map (\<lambda>(p, n). last p)
       (filter (\<lambda>(p, n). p \<noteq> [] \<and> butlast p = dir) fs)))"

text \<open>\<open>os.ReadDir\<close> returns the entries of a directory sorted by name.\<close>

definition os_ReadDir :: "env \<Rightarrow> world \<Rightarrow> path \<Rightarrow> (string + DirEntry list) \<times> world" where
  "os_ReadDir E w dir =
     (case fault E (ReadDirOp dir) of
        Some e \<Rightarrow> (Inl e, advance w)
      | None \<Rightarrow>
          (case lookup w dir of
             None \<Rightarrow> (Inl ''no such file or directory'', advance w)
           | Some (FileN bs) \<Rightarrow> (Inl ''not a directory'', advance w)
           | Some DirN \<Rightarrow>
               (Inr (map (\<lambda>n. \<lparr>Name = n, IsDir = (lookup w (dir @ [n]) = Some DirN)\<rparr>)
                       (children (fsys w) dir)),
                advance w)))"

text \<open>\<open>os.Open\<close> gives a handle on the node at the path; reading it is \<open>io.Copy\<close>.\<close>

definition os_Open :: "env \<Rightarrow> world \<Rightarrow> path \<Rightarrow> (string + node) \<times> world" where
  "os_Open E w p =
     (case fault E (OpenOp p) of
        Some e \<Rightarrow> (Inl e, advance w)
      | None \<Rightarrow>
          (case lookup w p of
             None \<Rightarrow> (Inl ''no such file or directory'', advance w)
           | Some n \<Rightarrow> (Inr n, advance w)))"

definition io_Copy :: "env \<Rightarrow> world \<Rightarrow> path \<Rightarrow> node \<Rightarrow> (string + byte list) \<times> world" where
  "io_Copy E w p n =
     (case fault E (ReadOp p) of
        Some e \<Rightarrow> (Inl e, advance w)
      | None \<Rightarrow>
          (case n of
             DirN \<Rightarrow> (Inl ''is a directory'', advance w)
           | FileN bs \<Rightarrow> (Inr bs, advance w)))"

text \<open>\<open>os.Create\<close> makes an empty file, or truncates the file that is there.\<close>

definition os_Create :: "env \<Rightarrow> world \<Rightarrow> path \<Rightarrow> string option \<times> world" where
  "os_Create E w p =
     (case fault E (CreateOp p) of
        Some e \<Rightarrow> (Some e, advance w)
      | None \<Rightarrow>
          if lookup w (filepath_Dir p) \<noteq> Some DirN then
            (Some ''no such file or directory'', advance w)
          else if lookup w p = Some DirN then (Some ''is a directory'', advance w)
          else (None, advance (w\<lparr>fsys := AList.update p (FileN []) (fsys w)\<rparr>)))"

text \<open>A write appends to the file; a failing write leaves \<open>short_write\<close> bytes of it.\<close>

definition file_Write :: "env \<Rightarrow> world \<Rightarrow> path \<Rightarrow> byte list \<Rightarrow> string option \<times> world" where
  "file_Write E w p data =
     (case lookup w p of
        Some (FileN old) \<Rightarrow>
          (case fault E (WriteOp p) of
             Some e \<Rightarrow>
               (Some e,
                advance (w\<lparr>fsys := AList.update p (FileN (old @ take (short_write E) data)) (fsys w)\<rparr>))
           | None \<Rightarrow>
               (None, advance (w\<lparr>fsys := AList.update p (FileN (old @ data)) (fsys w)\<rparr>)))
      | _ \<Rightarrow> (Some ''bad file descriptor'', advance w))"

definition file_Sync :: "env \<Rightarrow> world \<Rightarrow> path \<Rightarrow> string option \<times> world" where
  "file_Sync E w p = (fault E (SyncOp p), advance w)"

definition file_Close :: "env \<Rightarrow> world \<Rightarrow> path \<Rightarrow> string option \<times> world" where
  "file_Close E w p = (fault E (CloseOp p), advance w)"

definition has_entries :: "filesys \<Rightarrow> path \<Rightarrow> bool" where
  "has_entries fs dir = list_ex (\<lambda>(p, n). p \<noteq> [] \<and> butlast p = dir) fs"

definition os_Remove :: "env \<Rightarrow> world \<Rightarrow> path \<Rightarrow> string option \<times> world" where
  "os_Remove E w p =
     (case fault E (RemoveOp p) of
        Some e \<Rightarrow> (Some e, advance w)
      | None \<Rightarrow>
          (case lookup w p of
             None \<Rightarrow> (Some ''no such file or directory'', advance w)
           | Some (FileN bs) \<Rightarrow> (None, advance (w\<lparr>fsys := AList.delete p (fsys w)\<rparr>))
           | Some DirN \<Rightarrow>
               if has_entries (fsys w) p then (Some ''directory not empty'', advance w)
               else (None, advance (w\<lparr>fsys := AList.delete p (fsys w)\<rparr>))))"

text \<open>
  \<open>os.Rename\<close>. A file replaces a file at the new path. Go refuses to rename onto an
  existing directory, and a directory cannot replace a file, so a directory moves
  only to a path where nothing is bound, and not into itself; it moves with
  everything below it.
\<close>

definition beneath :: "path \<Rightarrow> path \<Rightarrow> bool" where
  "beneath dir p = (take (length dir) p = dir)"

definition move_tree :: "path \<Rightarrow> path \<Rightarrow> filesys \<Rightarrow> filesys" where
  "move_tree old new fs =
     map (\<lambda>(p, n). (if beneath old p then new @ drop (length old) p else p, n))
       (filter (\<lambda>(p, n). \<not> beneath new p) fs)"

definition os_Rename :: "env \<Rightarrow> world \<Rightarrow> path \<Rightarrow> path \<Rightarrow> string option \<times> world" where
  "os_Rename E w old new =
     (case fault E (RenameOp old new) of
        Some e \<Rightarrow> (Some e, advance w)
      | None \<Rightarrow>
          (case lookup w old of
             None \<Rightarrow> (Some ''no such file or directory'', advance w)
           | Some (FileN bs) \<Rightarrow>
               if lookup w new = Some DirN then (Some ''file exists'', advance w)
               else (None,
                     advance (w\<lparr>fsys := AList.update new (FileN bs) (AList.delete old (fsys w))\<rparr>))
           | Some DirN \<Rightarrow>
               if lookup w new \<noteq> None then (Some ''file exists'', advance w)
               else if beneath old new then (Some ''invalid argument'', advance w)
               else (None, advance (w\<lparr>fsys := move_tree old new (fsys w)\<rparr>))))"

section \<open>Library functions the program calls\<close>

text \<open>
  \<open>Time.Format\<close> for the two layouts the program uses. Go's \<open>appendInt\<close> writes a
  number in decimal, padded with zeros to a width.
\<close>

definition digit_char :: "nat \<Rightarrow> char" where
  "digit_char d = ''0123456789'' ! (d mod 10)"

fun decimal :: "nat \<Rightarrow> string" where
  "decimal n = (if n < 10 then [digit_char n] else decimal (n div 10) @ [digit_char (n mod 10)])"

declare decimal.simps [simp del]

definition appendInt :: "nat \<Rightarrow> nat \<Rightarrow> string" where
  "appendInt x width = replicate (width - length (decimal x)) CHR ''0'' @ decimal x"

text \<open>\<open>time.RFC3339\<close> is the layout \<open>2006-01-02T15:04:05Z07:00\<close>; a UTC time ends in \<open>Z\<close>.\<close>

definition format_RFC3339 :: "utc \<Rightarrow> string" where
  "format_RFC3339 t =
     appendInt (year t) 4 @ ''-'' @ appendInt (month t) 2 @ ''-'' @ appendInt (day t) 2 @ ''T'' @
     appendInt (hour t) 2 @ '':'' @ appendInt (minute t) 2 @ '':'' @ appendInt (second t) 2 @ ''Z''"

text \<open>The layout \<open>20060102T150405Z\<close> of line 285.\<close>

definition format_compact :: "utc \<Rightarrow> string" where
  "format_compact t =
     appendInt (year t) 4 @ appendInt (month t) 2 @ appendInt (day t) 2 @ ''T'' @
     appendInt (hour t) 2 @ appendInt (minute t) 2 @ appendInt (second t) 2 @ ''Z''"

text \<open>\<open>hash.Sum(nil)\<close>: the 16 bytes of the digest, the first byte the most significant.\<close>

definition hash_Sum :: "128 word \<Rightarrow> byte list" where
  "hash_Sum d = map (\<lambda>i. ucast (drop_bit (8 * (15 - i)) d)) [0..<16]"

text \<open>\<open>hex.EncodeToString\<close>: two characters of \<open>hextable\<close> for every byte.\<close>

definition hextable :: string where
  "hextable = ''0123456789abcdef''"

definition hex_EncodeToString :: "byte list \<Rightarrow> string" where
  "hex_EncodeToString src =
     concat (map (\<lambda>v. [hextable ! unat (drop_bit 4 v), hextable ! unat (v AND 15)]) src)"

text \<open>How a path is printed in an error message.\<close>

fun path_text :: "path \<Rightarrow> string" where
  "path_text [] = ''.''"
| "path_text [c] = c"
| "path_text (c # cs) = c @ ''/'' @ path_text cs"

section \<open>processFile, lines 181 to 212\<close>

text \<open>
  The clock is read on entry (line 182), before the file is opened. The deferred
  \<open>f.Close()\<close> runs on the two paths that opened the file; its result is dropped.
\<close>

definition processFile :: "env \<Rightarrow> world \<Rightarrow> path \<Rightarrow> string \<Rightarrow> LogEntry \<times> world" where
  "processFile E w fullpath basename =
     (let now = format_RFC3339 (time_Now E w) in
      case os_Open E w fullpath of
        (Inl err, w1) \<Rightarrow>
          (\<lparr>Filename = basename, Status = ''error'', MD5 = [],
            Error = ''failed to open file: '' @ err, Timestamp = now\<rparr>, w1)
      | (Inr f, w1) \<Rightarrow>
          (case io_Copy E w1 fullpath f of
             (Inl err, w2) \<Rightarrow>
               (\<lparr>Filename = basename, Status = ''error'', MD5 = [],
                 Error = ''failed to read file: '' @ err, Timestamp = now\<rparr>,
                snd (file_Close E w2 fullpath))
           | (Inr content, w2) \<Rightarrow>
               (let sum = hash_Sum (md5_digest E content) in
                (\<lparr>Filename = basename, Status = ''success'', MD5 = hex_EncodeToString sum,
                  Error = [], Timestamp = now\<rparr>,
                 snd (file_Close E w2 fullpath)))))"

section \<open>writeLogAtomic, lines 215 to 252\<close>

definition writeLogAtomic :: "env \<Rightarrow> world \<Rightarrow> path \<Rightarrow> LogEntry list \<Rightarrow> string option \<times> world" where
  "writeLogAtomic E w folder results =
     (case json_MarshalIndent E results of
        Inl err \<Rightarrow> (Some (''marshal results: '' @ err), w)
      | Inr data \<Rightarrow>
          (let tmpPath = filepath_Join folder ''log.tmp'';
               finalPath = filepath_Join folder ''log.json''
           in
           case os_Create E w tmpPath of
             (Some err, w1) \<Rightarrow> (Some (''create tmp log: '' @ err), w1)
           | (None, w1) \<Rightarrow>
               (case file_Write E w1 tmpPath data of
                  (Some err, w2) \<Rightarrow>
                    (let w3 = snd (file_Close E w2 tmpPath);
                         w4 = snd (os_Remove E w3 tmpPath)
                     in (Some (''write tmp log: '' @ err), w4))
                | (None, w2) \<Rightarrow>
                    (let w3 = snd (file_Sync E w2 tmpPath) in
                     case file_Close E w3 tmpPath of
                       (Some err, w4) \<Rightarrow> (Some (''close tmp log: '' @ err), w4)
                     | (None, w4) \<Rightarrow>
                         (case os_Rename E w4 tmpPath finalPath of
                            (Some err, w5) \<Rightarrow>
                              (Some (''rename tmp->final: '' @ err), snd (os_Remove E w5 tmpPath))
                          | (None, w5) \<Rightarrow> (None, w5))))))"

section \<open>renameFolderSafe, lines 256 to 294\<close>

text \<open>Lines 261 to 272: the name the status prefix is put in front of.\<close>

definition folder_id :: "string \<Rightarrow> string" where
  "folder_id base =
     (if \<not> strings_HasPrefix base ''r_'' then
        (let parts = strings_SplitN2 base CHR ''_'' in
         if length parts \<ge> 2 then parts ! 1 else base)
      else strings_TrimPrefix base ''r_'')"

text \<open>Lines 274 to 279.\<close>

definition targetPrefix :: "bool \<Rightarrow> string" where
  "targetPrefix allSuccess = (if allSuccess then ''d_'' else ''f_'')"

text \<open>Lines 257 to 287: the path the folder is to be moved to.\<close>

definition rename_target :: "env \<Rightarrow> world \<Rightarrow> path \<Rightarrow> bool \<Rightarrow> path \<times> world" where
  "rename_target E w src allSuccess =
     (let base = folder_id (filepath_Base src);
          parent = filepath_Dir src;
          target = filepath_Join parent (targetPrefix allSuccess @ base)
      in
      case os_Stat E w target of
        (True, w1) \<Rightarrow>
          (let suffix = format_compact (time_Now E w1) in
           (filepath_Join parent (targetPrefix allSuccess @ base @ ''_'' @ suffix), w1))
      | (False, w1) \<Rightarrow> (target, w1))"

definition renameFolderSafe :: "env \<Rightarrow> world \<Rightarrow> path \<Rightarrow> bool \<Rightarrow> string option \<times> world" where
  "renameFolderSafe E w src allSuccess =
     (case rename_target E w src allSuccess of
        (target, w1) \<Rightarrow>
          (case os_Rename E w1 src target of
             (Some err, w2) \<Rightarrow>
               (Some (''os.Rename '' @ path_text src @ '' -> '' @ path_text target @ '': '' @ err),
                w2)
           | (None, w2) \<Rightarrow> (None, w2)))"

section \<open>processFolder, lines 94 to 178\<close>

text \<open>Lines 100 to 107: the entries that are not directories, in the order read.\<close>

fun collect_files :: "DirEntry list \<Rightarrow> DirEntry list" where
  "collect_files [] = []"
| "collect_files (de # des) = (if IsDir de then collect_files des else de # collect_files des)"

text \<open>One call of \<open>processFile\<close> for every file of the folder, lines 120 to 135.\<close>

fun hash_files :: "env \<Rightarrow> world \<Rightarrow> path \<Rightarrow> DirEntry list \<Rightarrow> LogEntry list \<times> world" where
  "hash_files E w folder [] = ([], w)"
| "hash_files E w folder (f # fs) =
     (case processFile E w (filepath_Join folder (Name f)) (Name f) of
        (entry, w1) \<Rightarrow>
          (case hash_files E w1 folder fs of
             (rest, w2) \<Rightarrow> (entry # rest, w2)))"

text \<open>
  The order in which the tasks send on \<open>resultsCh\<close>. The tasks start in the order of
  the files, each holding one of the \<open>slots\<close> of the semaphore, so the next task to
  finish is one of the first \<open>slots\<close> tasks that have not finished; the environment
  chooses which. When its choices run out the rest finish in the order they started.
  With no slot no task ever starts.
\<close>

fun deliver :: "nat \<Rightarrow> 'a list \<Rightarrow> nat list \<Rightarrow> 'a list" where
  "deliver slots unfinished [] = (if slots = 0 then [] else unfinished)"
| "deliver slots unfinished (k # ks) =
     (if unfinished = [] \<or> slots = 0 then []
      else
        (let i = k mod min slots (length unfinished) in
         unfinished ! i # deliver slots (take i unfinished @ drop (Suc i) unfinished) ks))"

text \<open>
  Lines 113 to 150: run the tasks, collect what they send, sort by file name.
  \<open>sort.Slice\<close> is not a stable sort; the names in one directory are distinct, so
  the order it leaves is the order of any sort by name.
\<close>

definition run_pool :: "env \<Rightarrow> world \<Rightarrow> path \<Rightarrow> int \<Rightarrow> DirEntry list \<Rightarrow> LogEntry list \<times> world" where
  "run_pool E w folder concurrency files =
     (case hash_files E w folder files of
        (entries, w1) \<Rightarrow>
          (let results = deliver (nat concurrency) entries (completion E) in
           (sort_key Filename results, w1)))"

text \<open>Lines 152 to 159.\<close>

fun allSuccess_loop :: "LogEntry list \<Rightarrow> bool" where
  "allSuccess_loop [] = True"
| "allSuccess_loop (r # rs) = (if Status r \<noteq> ''success'' then False else allSuccess_loop rs)"

text \<open>
  A call of \<open>processFolder\<close> returns an error or \<open>nil\<close>, or it does not return:
  \<open>make(chan struct{}, concurrency)\<close> panics on a negative size, and with size 0 the
  first \<open>sem <- struct{}{}\<close> blocks forever. The flag \<open>verbose\<close> only prints and is
  left out, as is what the function writes to the standard error.
\<close>

datatype outcome = Returned "string option" | Panicked string | Deadlocked

definition processFolder :: "env \<Rightarrow> world \<Rightarrow> path \<Rightarrow> int \<Rightarrow> outcome \<times> world" where
  "processFolder E w folder concurrency =
     (case os_ReadDir E w folder of
        (Inl err, w1) \<Rightarrow> (Returned (Some (''read folder: '' @ err)), w1)
      | (Inr dirEntries, w1) \<Rightarrow>
          (let files = collect_files dirEntries in
           if concurrency < 0 then (Panicked ''makechan: size out of range'', w1)
           else if concurrency = 0 \<and> files \<noteq> [] then (Deadlocked, w1)
           else
             (case run_pool E w1 folder concurrency files of
                (results, w2) \<Rightarrow>
                  (let allSuccess = allSuccess_loop results in
                   case writeLogAtomic E w2 folder results of
                     (Some err, w3) \<Rightarrow>
                       (case renameFolderSafe E w3 folder False of
                          (Some renameErr, w4) \<Rightarrow>
                            (Returned (Some (''logging error: '' @ err @
                                             ''; folder rename error: '' @ renameErr)), w4)
                        | (None, w4) \<Rightarrow>
                            (Returned (Some (''failed to write log: '' @ err)), w4))
                   | (None, w3) \<Rightarrow>
                       (case renameFolderSafe E w3 folder allSuccess of
                          (Some err, w4) \<Rightarrow> (Returned (Some (''rename folder: '' @ err)), w4)
                        | (None, w4) \<Rightarrow> (Returned None, w4))))))"

text \<open>
  Lines 95 to 159 of \<open>processFolder\<close>: the sorted records and the world in which the
  log is about to be written, when the function gets that far.
\<close>

definition before_log :: "env \<Rightarrow> world \<Rightarrow> path \<Rightarrow> int \<Rightarrow> (LogEntry list \<times> world) option" where
  "before_log E w folder concurrency =
     (case os_ReadDir E w folder of
        (Inl err, w1) \<Rightarrow> None
      | (Inr dirEntries, w1) \<Rightarrow>
          (let files = collect_files dirEntries in
           if concurrency < 0 \<or> (concurrency = 0 \<and> files \<noteq> []) then None
           else Some (run_pool E w1 folder concurrency files)))"

section \<open>The worker pool as a transition system, lines 116 to 141\<close>

text \<open>
  The loop of line 120 and the goroutines it starts, one step at a time. The channel
  \<open>sem\<close> holds one token for every task between the send of line 122 and the deferred
  receive of line 127. A task the loop has started is first \<open>Spawned\<close>, is \<open>Hashing\<close>
  while it runs \<open>processFile\<close> (line 129), and has \<open>Sent\<close> once its entry, whatever its
  status, is on \<open>resultsCh\<close> (line 130).
\<close>

datatype phase = Spawned | Hashing | Sent

record pool =
  todo :: "string list"
  sem :: nat
  tasks :: "(string \<times> phase) list"
  resultsCh :: "(string \<times> string) list"

definition pool_init :: "string list \<Rightarrow> pool" where
  "pool_init files = \<lparr>todo = files, sem = 0, tasks = [], resultsCh = []\<rparr>"

definition hashing :: "pool \<Rightarrow> nat" where
  "hashing s = length (filter (\<lambda>(f, ph). ph = Hashing) (tasks s))"

inductive pool_step :: "nat \<Rightarrow> pool \<Rightarrow> pool \<Rightarrow> bool" for cap :: nat where
  acquire_go:
    "todo s = f # fs \<Longrightarrow> sem s < cap \<Longrightarrow>
     pool_step cap s (s\<lparr>todo := fs, sem := Suc (sem s), tasks := tasks s @ [(f, Spawned)]\<rparr>)"
| enter:
    "i < length (tasks s) \<Longrightarrow> tasks s ! i = (f, Spawned) \<Longrightarrow>
     pool_step cap s (s\<lparr>tasks := (tasks s)[i := (f, Hashing)]\<rparr>)"
| send:
    "i < length (tasks s) \<Longrightarrow> tasks s ! i = (f, Hashing) \<Longrightarrow>
     pool_step cap s
       (s\<lparr>tasks := (tasks s)[i := (f, Sent)], resultsCh := resultsCh s @ [(f, status)]\<rparr>)"
| release:
    "i < length (tasks s) \<Longrightarrow> tasks s ! i = (f, Sent) \<Longrightarrow>
     pool_step cap s
       (s\<lparr>sem := sem s - 1, tasks := take i (tasks s) @ drop (Suc i) (tasks s)\<rparr>)"

inductive reachable :: "nat \<Rightarrow> string list \<Rightarrow> pool \<Rightarrow> bool" for cap :: nat and files :: "string list" where
  start: "reachable cap files (pool_init files)"
| step: "reachable cap files s \<Longrightarrow> pool_step cap s s' \<Longrightarrow> reachable cap files s'"

section \<open>Notions of the specification\<close>

text \<open>
  The folder has been renamed: a directory stands beneath the new name beside the old
  one, where nothing stood before, and nothing stands beneath the old name any more.
\<close>

definition renamed_to :: "world \<Rightarrow> world \<Rightarrow> path \<Rightarrow> string \<Rightarrow> bool" where
  "renamed_to w w' folder name =
     (lookup w folder = Some DirN \<and>
      lookup w (filepath_Join (filepath_Dir folder) name) = None \<and>
      lookup w' (filepath_Join (filepath_Dir folder) name) = Some DirN \<and>
      lookup w' folder = None)"

text \<open>
  The stable identifier in the words of the specification: the substring after the
  first underscore when the name contains one, and the entire name otherwise.
\<close>

fun after_first :: "char \<Rightarrow> string \<Rightarrow> string option" where
  "after_first c [] = None"
| "after_first c (x # xs) = (if x = c then Some xs else after_first c xs)"

definition spec_stable_id :: "string \<Rightarrow> string" where
  "spec_stable_id base = (case after_first CHR ''_'' base of None \<Rightarrow> base | Some rest \<Rightarrow> rest)"

text \<open>
  The number that a text of lowercase hexadecimal digits denotes, most significant
  digit first; there is none when a character is not one of \<open>0\<close> to \<open>9\<close> or \<open>a\<close> to
  \<open>f\<close>. It does not refer to the encoder of the program.
\<close>

definition hex_digit_value :: "char \<Rightarrow> nat option" where
  "hex_digit_value c =
     (if CHR ''0'' \<le> c \<and> c \<le> CHR ''9'' then Some (of_char c - 48)
      else if CHR ''a'' \<le> c \<and> c \<le> CHR ''f'' then Some (of_char c - 87)
      else None)"

fun hex_numeral_from :: "nat \<Rightarrow> string \<Rightarrow> nat option" where
  "hex_numeral_from acc [] = Some acc"
| "hex_numeral_from acc (c # cs) =
     (case hex_digit_value c of
        None \<Rightarrow> None
      | Some d \<Rightarrow> hex_numeral_from (16 * acc + d) cs)"

definition hex_numeral :: "string \<Rightarrow> nat option" where
  "hex_numeral s = hex_numeral_from 0 s"

text \<open>Lowercase hexadecimal text.\<close>

definition is_lower_hex :: "string \<Rightarrow> bool" where
  "is_lower_hex s = list_all (\<lambda>c. c \<in> set ''0123456789abcdef'') s"

text \<open>
  The shape of an RFC 3339 timestamp in UTC, \<open>YYYY-MM-DDThh:mm:ssZ\<close>: in a layout the
  character \<open>9\<close> stands for any digit, every other character for itself.
\<close>

definition is_digit :: "char \<Rightarrow> bool" where
  "is_digit c = (c \<in> set ''0123456789'')"

fun matches_layout :: "string \<Rightarrow> string \<Rightarrow> bool" where
  "matches_layout [] [] = True"
| "matches_layout (l # ls) (c # cs) =
     ((if l = CHR ''9'' then is_digit c else c = l) \<and> matches_layout ls cs)"
| "matches_layout _ _ = False"

definition is_RFC3339_utc :: "string \<Rightarrow> bool" where
  "is_RFC3339_utc s = matches_layout ''9999-99-99T99:99:99Z'' s"

text \<open>A clock reading with its fields in the range of the calendar.\<close>

definition valid_utc :: "utc \<Rightarrow> bool" where
  "valid_utc t =
     (year t < 10000 \<and> 1 \<le> month t \<and> month t \<le> 12 \<and> 1 \<le> day t \<and> day t \<le> 31 \<and>
      hour t < 24 \<and> minute t < 60 \<and> second t < 60)"

section \<open>Example runs\<close>

text \<open>
  An environment with a clock that advances one second a step, in which the system
  calls listed fail with \<open>permission denied\<close>, and a directory \<open>in\<close> holding work folders.
  Its digest is not MD5: it is a fixed 128-bit pattern plus the length of the content.
\<close>

definition ex_clock :: "nat \<Rightarrow> utc" where
  "ex_clock n = \<lparr>year = 2025, month = 4, day = 16, hour = 15, minute = 22, second = n mod 60\<rparr>"

definition ex_marshal :: "LogEntry list \<Rightarrow> string + byte list" where
  "ex_marshal rs = Inr (map of_char (concat (map (\<lambda>r. Filename r @ '':'' @ Status r @ '';'') rs)))"

definition ex_env :: "syscall list \<Rightarrow> nat list \<Rightarrow> env" where
  "ex_env failing order =
     \<lparr>clock = ex_clock,
      fault = (\<lambda>c. if c \<in> set failing then Some ''permission denied'' else None),
      short_write = 0,
      completion = order,
      md5_digest = (\<lambda>bs. 0x0123456789abcdeffedcba9876543210 + of_nat (length bs)),
      json_MarshalIndent = ex_marshal\<rparr>"

definition ex_world :: world where
  "ex_world =
     \<lparr>fsys =
        [([''in''], DirN),
         ([''in'', ''r_1''], DirN),
         ([''in'', ''r_1'', ''b.txt''], FileN [119, 111]),
         ([''in'', ''r_1'', ''a.txt''], FileN [104, 105]),
         ([''in'', ''r_1'', ''sub''], DirN),
         ([''in'', ''r_1'', ''sub'', ''x''], FileN []),
         ([''in'', ''r_3''], DirN),
         ([''in'', ''r_4''], DirN),
         ([''in'', ''d_4''], DirN),
         ([''in'', ''r_5''], DirN),
         ([''in'', ''d_5''], DirN),
         ([''in'', ''d_5_20250416T152201Z''], DirN),
         ([''in'', ''job_7''], DirN),
         ([''in'', ''plain''], DirN)],
      tick = 0\<rparr>"

section \<open>Properties\<close>

subsection \<open>Lookups after a change of the file system\<close>

lemma lookup_advance [simp]: "lookup (advance w) p = lookup w p"
  by (simp add: lookup_def advance_def)

lemma tick_advance [simp]: "tick (advance w) = Suc (tick w)"
  by (simp add: advance_def)

lemma lookup_update [simp]:
  "lookup (w\<lparr>fsys := AList.update p v (fsys w)\<rparr>) q = (if q = p then Some v else lookup w q)"
  by (simp add: lookup_def update_conv')

lemma lookup_delete [simp]:
  "lookup (w\<lparr>fsys := AList.delete p (fsys w)\<rparr>) q = (if q = p then None else lookup w q)"
  by (simp add: lookup_def delete_conv')

lemma lookup_update_delete [simp]:
  "lookup (w\<lparr>fsys := AList.update p v (AList.delete r (fsys w))\<rparr>) q =
     (if q = p then Some v else if q = r then None else lookup w q)"
  by (simp add: lookup_def update_conv' delete_conv')

lemma beneath_append [simp]: "beneath dir (dir @ rest)"
  by (simp add: beneath_def)

lemma beneath_same_length: "length p = length dir \<Longrightarrow> beneath dir p \<longleftrightarrow> p = dir"
  by (auto simp: beneath_def)

lemma beneath_split: "beneath dir p \<Longrightarrow> p = dir @ drop (length dir) p"
  by (metis append_take_drop_id beneath_def)

lemma beneath_both:
  assumes "beneath a p" "beneath b p" "length a = length b"
  shows "a = b"
  using assms by (metis beneath_def)

lemma map_of_move_tree:
  assumes "length old = length new" "old \<noteq> new"
  shows "map_of (move_tree old new fs) q =
           (if beneath new q then map_of fs (old @ drop (length new) q)
            else if beneath old q then None
            else map_of fs q)"
proof (induction fs)
  case Nil
  show ?case by (simp add: move_tree_def)
next
  case (Cons a fs)
  obtain p n where a: "a = (p, n)" by (cases a)
  have excl: "\<not> (beneath old x \<and> beneath new x)" for x
    using assms beneath_both by blast
  have goal: "map_of (move_tree old new ((p, n) # fs)) q =
           (if beneath new q then map_of ((p, n) # fs) (old @ drop (length new) q)
            else if beneath old q then None
            else map_of ((p, n) # fs) q)"
  proof (cases "beneath new p")
    case True
    then have "move_tree old new ((p, n) # fs) = move_tree old new fs"
      by (simp add: move_tree_def)
    moreover have "p \<noteq> old @ drop (length new) q"
      using True excl [of p] by auto
    moreover have "\<not> beneath new q \<Longrightarrow> p \<noteq> q" using True by auto
    ultimately show ?thesis using Cons.IH by auto
  next
    case False
    show ?thesis
    proof (cases "beneath old p")
      case True
      have mt: "move_tree old new ((p, n) # fs) = (new @ drop (length old) p, n) # move_tree old new fs"
        using True False by (simp add: move_tree_def)
      have p: "old @ drop (length old) p = p" using beneath_split [OF True] by simp
      show ?thesis
      proof (cases "q = new @ drop (length old) p")
        case eq: True
        have "beneath new q" by (simp add: eq)
        moreover have "old @ drop (length new) q = p" using p by (simp add: eq)
        moreover have "map_of (move_tree old new ((p, n) # fs)) q = Some n"
          by (simp add: mt eq)
        ultimately show ?thesis by simp
      next
        case neq: False
        have "old @ drop (length new) q \<noteq> p" if u: "beneath new q"
        proof
          assume e: "old @ drop (length new) q = p"
          have "q = new @ drop (length new) q" using u by (rule beneath_split)
          moreover have "drop (length old) p = drop (length new) q"
            using e [symmetric] by simp
          ultimately show False using neq by simp
        qed
        moreover have "\<not> beneath old q \<Longrightarrow> q \<noteq> p" using True by auto
        moreover have "map_of (move_tree old new ((p, n) # fs)) q = map_of (move_tree old new fs) q"
          using neq by (simp add: mt)
        ultimately show ?thesis using Cons.IH by auto
      qed
    next
      case nold: False
      have mt: "move_tree old new ((p, n) # fs) = (p, n) # move_tree old new fs"
        using nold False by (simp add: move_tree_def)
      have "old @ drop (length new) q \<noteq> p" using nold by auto
      moreover have "q = p \<Longrightarrow> \<not> beneath new q \<and> \<not> beneath old q" using nold False by simp
      ultimately show ?thesis using Cons.IH by (auto simp add: mt)
    qed
  qed
  then show ?case by (simp only: a)
qed

subsection \<open>The loops of processFolder\<close>

lemma allSuccess_loop_iff: "allSuccess_loop rs \<longleftrightarrow> (\<forall>r\<in>set rs. Status r = ''success'')"
  by (induction rs) auto


lemma pick_in_range: "xs \<noteq> [] \<Longrightarrow> 0 < slots \<Longrightarrow> k mod min slots (length xs) < length xs"
proof -
  assume "xs \<noteq> []" "0 < slots"
  then have "0 < min slots (length xs)" by simp
  then have "k mod min slots (length xs) < min slots (length xs)" by (rule mod_less_divisor)
  then show ?thesis by simp
qed

lemma mset_deliver: "0 < slots \<or> xs = [] \<Longrightarrow> mset (deliver slots xs ks) = mset xs"
proof (induction ks arbitrary: xs)
  case Nil
  then show ?case by auto
next
  case (Cons k ks)
  show ?case
  proof (cases "xs = [] \<or> slots = 0")
    case True
    with Cons.prems show ?thesis by auto
  next
    case False
    define i where "i = k mod min slots (length xs)"
    from False have i: "i < length xs" by (simp add: i_def pick_in_range)
    from False have "0 < slots" by simp
    then have "mset (deliver slots (take i xs @ drop (Suc i) xs) ks) = mset (take i xs @ drop (Suc i) xs)"
      using Cons.IH by blast
    moreover have "mset xs = mset (take i xs @ xs ! i # drop (Suc i) xs)"
      using id_take_nth_drop [OF i] by simp
    ultimately show ?thesis using False by (simp add: i_def Let_def)
  qed
qed

lemma processFile_Filename: "Filename (fst (processFile E w p b)) = b"
  by (simp add: processFile_def Let_def split: prod.splits sum.splits)

lemma hash_files_names: "map Filename (fst (hash_files E w folder fs)) = map Name fs"
proof (induction fs arbitrary: w)
  case Nil
  show ?case by simp
next
  case (Cons f fs)
  obtain entry w1 where pf: "processFile E w (filepath_Join folder (Name f)) (Name f) = (entry, w1)"
    by (cases "processFile E w (filepath_Join folder (Name f)) (Name f)")
  obtain rest w2 where hf: "hash_files E w1 folder fs = (rest, w2)"
    by (cases "hash_files E w1 folder fs")
  have "Filename entry = Name f" using processFile_Filename [of E w "filepath_Join folder (Name f)" "Name f"] pf by simp
  moreover have "map Filename rest = map Name fs" using Cons.IH [of w1] hf by simp
  ultimately show ?case by (simp add: pf hf)
qed

subsection \<open>Digests and timestamps as text\<close>

lemma length_hash_Sum: "length (hash_Sum d) = 16"
  by (simp add: hash_Sum_def)

lemma length_hex: "length (hex_EncodeToString bs) = 2 * length bs"
  by (induction bs) (simp_all add: hex_EncodeToString_def)

lemma nibble_hi: "unat (drop_bit 4 (v::byte)) < 16"
proof -
  have "unat v < 256" using unsigned_less [of v, where ?'a = nat] by simp
  moreover have "unat (drop_bit 4 v) = drop_bit 4 (unat v)" by (rule unat_drop_bit_eq)
  moreover have "drop_bit 4 (unat v) = unat v div 16" by (simp add: drop_bit_eq_div)
  ultimately show ?thesis by simp
qed

lemma nibble_lo: "unat ((v::byte) AND 15) < 16"
proof -
  have "v AND 15 \<le> 15" by (rule word_and_le1)
  then have "unat (v AND 15) \<le> unat (15::byte)" by (simp add: word_le_nat_alt)
  then show ?thesis by simp
qed

lemma hextable_nth: "i < 16 \<Longrightarrow> hextable ! i \<in> set ''0123456789abcdef''"
  unfolding hextable_def by (rule nth_mem) simp

lemma is_lower_hex_encode: "is_lower_hex (hex_EncodeToString bs)"
  by (induction bs)
    (simp_all add: is_lower_hex_def hex_EncodeToString_def hextable_nth nibble_hi nibble_lo
      del: set_simps)

lemma is_digit_digit_char: "is_digit (digit_char d)"
  unfolding is_digit_def digit_char_def by (rule nth_mem) simp

lemma decimal_small: "n < 10 \<Longrightarrow> decimal n = [digit_char n]"
  by (simp add: decimal.simps [of n])

lemma decimal_large: "10 \<le> n \<Longrightarrow> decimal n = decimal (n div 10) @ [digit_char (n mod 10)]"
  by (simp add: decimal.simps [of n])

lemma digit_char_0: "digit_char 0 = CHR ''0''"
  by (simp add: digit_char_def)

lemma replicate_small:
  "replicate 2 x = [x, x]" "replicate 3 x = [x, x, x]"
  by (simp_all add: numeral_2_eq_2 numeral_3_eq_3)

lemma appendInt_2: "x < 100 \<Longrightarrow> appendInt x 2 = [digit_char (x div 10), digit_char (x mod 10)]"
proof (cases "x < 10")
  case True
  then show ?thesis by (simp add: appendInt_def decimal_small digit_char_0)
next
  case False
  assume "x < 100"
  with False have "decimal x = [digit_char (x div 10), digit_char (x mod 10)]"
    by (simp add: decimal_large decimal_small)
  then show ?thesis by (simp add: appendInt_def)
qed

lemma appendInt_4:
  assumes "x < 10000"
  shows "appendInt x 4 =
    [digit_char (x div 1000), digit_char (x div 100 mod 10), digit_char (x div 10 mod 10),
     digit_char (x mod 10)]"
proof -
  consider "x < 10" | "10 \<le> x" "x < 100" | "100 \<le> x" "x < 1000" | "1000 \<le> x" by linarith
  then show ?thesis
  proof cases
    case 1
    then have "decimal x = [digit_char x]" by (rule decimal_small)
    with 1 show ?thesis by (simp add: appendInt_def digit_char_0 replicate_small)
  next
    case 2
    then have "decimal x = [digit_char (x div 10), digit_char (x mod 10)]"
      by (simp add: decimal_large decimal_small)
    moreover from 2 have "x div 100 = 0" "x div 1000 = 0" by simp_all
    ultimately show ?thesis using 2 by (simp add: appendInt_def digit_char_0 replicate_small)
  next
    case 3
    then have a: "10 \<le> x div 10" "x div 10 div 10 < 10" by simp_all
    have "decimal x = decimal (x div 10) @ [digit_char (x mod 10)]"
      using 3 by (simp add: decimal_large)
    also have "decimal (x div 10) = decimal (x div 10 div 10) @ [digit_char (x div 10 mod 10)]"
      using a by (simp add: decimal_large)
    also have "decimal (x div 10 div 10) = [digit_char (x div 10 div 10)]"
      using a by (simp add: decimal_small)
    finally have "decimal x = [digit_char (x div 100), digit_char (x div 10 mod 10), digit_char (x mod 10)]"
      by (simp add: div_mult2_eq [symmetric])
    moreover from 3 have "x div 100 mod 10 = x div 100" "x div 1000 = 0" by simp_all
    ultimately show ?thesis by (simp add: appendInt_def digit_char_0)
  next
    case 4
    with assms have a: "10 \<le> x div 10" "10 \<le> x div 10 div 10" "x div 10 div 10 div 10 < 10"
      by simp_all
    have "decimal x = decimal (x div 10) @ [digit_char (x mod 10)]"
      using 4 by (simp add: decimal_large)
    also have "decimal (x div 10) = decimal (x div 10 div 10) @ [digit_char (x div 10 mod 10)]"
      using a by (simp add: decimal_large)
    also have "decimal (x div 10 div 10) =
        decimal (x div 10 div 10 div 10) @ [digit_char (x div 10 div 10 mod 10)]"
      using a by (simp add: decimal_large)
    also have "decimal (x div 10 div 10 div 10) = [digit_char (x div 10 div 10 div 10)]"
      using a by (simp add: decimal_small)
    finally have "decimal x = [digit_char (x div 1000), digit_char (x div 100 mod 10),
        digit_char (x div 10 mod 10), digit_char (x mod 10)]"
      by (simp add: div_mult2_eq [symmetric])
    then show ?thesis by (simp add: appendInt_def)
  qed
qed

lemma format_RFC3339_shape: "valid_utc t \<Longrightarrow> is_RFC3339_utc (format_RFC3339 t)"
  by (simp add: valid_utc_def is_RFC3339_utc_def format_RFC3339_def appendInt_2 appendInt_4
      is_digit_digit_char)

lemma hextable_values: "list_all (\<lambda>i. hex_digit_value (hextable ! i) = Some i) [0..<16]"
  by code_simp

lemma hex_digit_hextable: "i < 16 \<Longrightarrow> hex_digit_value (hextable ! i) = Some i"
  using hextable_values by (simp add: list_all_iff)

lemma unat_low_nibble: "unat ((v::byte) AND 15) = unat v mod 16"
proof -
  have "(15::byte) = mask 4" by (simp add: mask_eq_exp_minus_1)
  then have "v AND 15 = take_bit 4 v" by (simp add: take_bit_eq_mask)
  then have "unat (v AND 15) = take_bit 4 (unat v)" by (simp add: unsigned_take_bit_eq)
  then show ?thesis by (simp add: take_bit_eq_mod)
qed

lemma unat_high_nibble: "unat (drop_bit 4 (v::byte)) = unat v div 16"
proof -
  have "unat (drop_bit 4 v) = drop_bit 4 (unat v)" by (rule unat_drop_bit_eq)
  then show ?thesis by (simp add: drop_bit_eq_div)
qed

lemma unat_digest_byte:
  "unat (ucast (drop_bit m (d::128 word)) :: byte) = unat d div 2 ^ m mod 256"
proof -
  have "unat (ucast (drop_bit m d) :: byte) = take_bit LENGTH(8) (unat (drop_bit m d))"
    by (rule unsigned_ucast_eq)
  also have "\<dots> = unat (drop_bit m d) mod 256" by (simp add: take_bit_eq_mod)
  also have "unat (drop_bit m d) = drop_bit m (unat d)" by (rule unat_drop_bit_eq)
  finally show ?thesis by (simp add: drop_bit_eq_div)
qed

lemma hex_numeral_encode:
  "hex_numeral_from acc (hex_EncodeToString bs) = Some (foldl (\<lambda>a b. 256 * a + unat b) acc bs)"
proof (induction bs arbitrary: acc)
  case Nil
  show ?case by (simp add: hex_EncodeToString_def)
next
  case (Cons v bs)
  have enc: "hex_EncodeToString (v # bs) =
      hextable ! unat (drop_bit 4 v) # hextable ! unat (v AND 15) # hex_EncodeToString bs"
    by (simp add: hex_EncodeToString_def)
  have hi: "hex_digit_value (hextable ! unat (drop_bit 4 v)) = Some (unat v div 16)"
    using hex_digit_hextable [OF nibble_hi [of v]] by (simp add: unat_high_nibble)
  have lo: "hex_digit_value (hextable ! unat (v AND 15)) = Some (unat v mod 16)"
    using hex_digit_hextable [OF nibble_lo [of v]] by (simp add: unat_low_nibble)
  have step: "16 * (16 * acc + unat v div 16) + unat v mod 16 = 256 * acc + unat v" by simp
  have "hex_numeral_from acc (hex_EncodeToString (v # bs)) =
      hex_numeral_from (16 * (16 * acc + unat v div 16) + unat v mod 16) (hex_EncodeToString bs)"
    by (simp only: enc hex_numeral_from.simps hi lo option.case)
  also have "\<dots> = hex_numeral_from (256 * acc + unat v) (hex_EncodeToString bs)"
    by (simp only: step)
  also have "\<dots> = Some (foldl (\<lambda>a b. 256 * a + unat b) (256 * acc + unat v) bs)"
    by (rule Cons.IH)
  finally show ?case by simp
qed

lemma digest_bytes_prefix:
  assumes "j \<le> 16"
  shows "foldl (\<lambda>a b. 256 * a + unat b) 0
           (map (\<lambda>i. ucast (drop_bit (8 * (15 - i)) (d::128 word)) :: byte) [0..<j])
         = unat d div 256 ^ (16 - j)"
  using assms
proof (induction j)
  case 0
  have "unat d < 2 ^ 128" using unsigned_less [of d, where ?'a = nat] by simp
  moreover have "(256::nat) ^ 16 = 2 ^ 128" by simp
  ultimately show ?case by simp
next
  case (Suc j)
  then have j: "j \<le> 16" "16 - j = Suc (15 - j)" "16 - Suc j = 15 - j" by simp_all
  have b: "unat (ucast (drop_bit (8 * (15 - j)) d) :: byte) = unat d div 256 ^ (15 - j) mod 256"
  proof -
    have "(2::nat) ^ (8 * (15 - j)) = 256 ^ (15 - j)" by (simp add: power_mult)
    then show ?thesis by (simp add: unat_digest_byte)
  qed
  have "unat d div 256 ^ (16 - j) = unat d div 256 ^ (15 - j) div 256"
    by (simp only: j(2) power_Suc2 div_mult2_eq)
  then have "256 * (unat d div 256 ^ (16 - j)) + unat d div 256 ^ (15 - j) mod 256
      = unat d div 256 ^ (15 - j)" by simp
  then show ?case using Suc.IH [OF j(1)] by (simp add: b j(3))
qed

lemma digest_bytes_value: "foldl (\<lambda>a b. 256 * a + unat b) 0 (hash_Sum d) = unat d"
  using digest_bytes_prefix [of 16 d] by (simp add: hash_Sum_def)

lemma hex_numeral_digest: "hex_numeral (hex_EncodeToString (hash_Sum d)) = Some (unat d)"
  by (simp add: hex_numeral_def hex_numeral_encode digest_bytes_value)

subsection \<open>Renaming a directory\<close>

lemma after_first_dropWhile:
  "after_first c s = (case dropWhile (\<lambda>x. x \<noteq> c) s of [] \<Rightarrow> None | x # rest \<Rightarrow> Some rest)"
  by (induction s) auto

lemma folder_id_spec: "folder_id base = spec_stable_id base"
proof (cases "strings_HasPrefix base ''r_''")
  case True
  then obtain rest where "base = CHR ''r'' # CHR ''_'' # rest"
    by (cases base; cases "tl base") (auto simp: strings_HasPrefix_def)
  then show ?thesis
    by (simp add: folder_id_def spec_stable_id_def strings_HasPrefix_def strings_TrimPrefix_def)
next
  case False
  show ?thesis
  proof (cases "dropWhile (\<lambda>c. c \<noteq> CHR ''_'') base")
    case Nil
    with False show ?thesis
      by (simp add: folder_id_def spec_stable_id_def strings_SplitN2_def after_first_dropWhile
          Let_def del: dropWhile_eq_Nil_conv)
  next
    case (Cons x rest)
    with False show ?thesis
      by (simp add: folder_id_def spec_stable_id_def strings_SplitN2_def after_first_dropWhile
          Let_def del: dropWhile_eq_Nil_conv)
  qed
qed

lemma rename_target_eq:
  "rename_target E w src ok =
     (let target = filepath_Join (filepath_Dir src) (targetPrefix ok @ folder_id (filepath_Base src)) in
      if lookup w target \<noteq> None
      then (filepath_Join (filepath_Dir src)
              (targetPrefix ok @ folder_id (filepath_Base src) @ ''_'' @
               format_compact (clock E (Suc (tick w)))), advance w)
      else (target, advance w))"
  by (simp add: rename_target_def os_Stat_def Let_def time_Now_def)

lemma lookup_move_tree:
  assumes "length old = length new" "old \<noteq> new"
  shows "lookup (advance (w\<lparr>fsys := move_tree old new (fsys w)\<rparr>)) q =
           (if beneath new q then lookup w (old @ drop (length new) q)
            else if beneath old q then None
            else lookup w q)"
  using map_of_move_tree [OF assms] by (simp add: lookup_def advance_def)

lemma os_Rename_dir:
  assumes "lookup w old = Some DirN" "lookup w new = None" "fault E (RenameOp old new) = None"
    and "length old = length new"
  shows "os_Rename E w old new = (None, advance (w\<lparr>fsys := move_tree old new (fsys w)\<rparr>))"
proof -
  from assms have "old \<noteq> new" by auto
  with assms(4) have "\<not> beneath old new" by (simp add: beneath_same_length)
  with assms show ?thesis by (simp add: os_Rename_def)
qed

lemma length_sibling: "src \<noteq> [] \<Longrightarrow> length (filepath_Join (filepath_Dir src) name) = length src"
  by (simp add: filepath_Join_def filepath_Dir_def)

lemma renamed_dir:
  assumes "lookup w src = Some DirN" "src \<noteq> []"
    and "lookup w (filepath_Join (filepath_Dir src) name) = None"
    and "fault E (RenameOp src (filepath_Join (filepath_Dir src) name)) = None"
  defines "w' \<equiv> advance (w\<lparr>fsys := move_tree src (filepath_Join (filepath_Dir src) name) (fsys w)\<rparr>)"
  shows "os_Rename E w src (filepath_Join (filepath_Dir src) name) = (None, w')"
    and "renamed_to w w' src name"
    and "\<And>q. length q = length src \<Longrightarrow> q \<noteq> src \<Longrightarrow> q \<noteq> filepath_Join (filepath_Dir src) name \<Longrightarrow>
          lookup w' (q @ rest) = lookup w (q @ rest)"
    and "\<And>rest. lookup w' (filepath_Join (filepath_Dir src) name @ rest) = lookup w (src @ rest)"
proof -
  let ?new = "filepath_Join (filepath_Dir src) name"
  have len: "length src = length ?new" using assms(2) by (simp add: length_sibling)
  have ne: "src \<noteq> ?new" using assms(1,3) by auto
  show "os_Rename E w src ?new = (None, w')"
    unfolding w'_def using assms(1,3,4) len by (rule os_Rename_dir)
  have lk: "lookup w' q = (if beneath ?new q then lookup w (src @ drop (length ?new) q)
            else if beneath src q then None else lookup w q)" for q
    unfolding w'_def using len ne by (rule lookup_move_tree)
  have "\<not> beneath ?new src" using len ne by (simp add: beneath_same_length)
  moreover have "beneath src src" by (simp add: beneath_def)
  moreover have "beneath ?new ?new" by (simp add: beneath_def)
  ultimately show "renamed_to w w' src name"
    using assms(1,3) by (simp add: renamed_to_def lk)
  show "lookup w' (?new @ rest) = lookup w (src @ rest)" for rest
    by (simp add: lk)
  show "lookup w' (q @ rest) = lookup w (q @ rest)"
    if "length q = length src" "q \<noteq> src" "q \<noteq> ?new" for q
  proof -
    have "\<not> beneath ?new (q @ rest)" using that len by (auto simp: beneath_def)
    moreover have "\<not> beneath src (q @ rest)" using that by (auto simp: beneath_def)
    ultimately show ?thesis by (simp add: lk)
  qed
qed


subsection \<open>writeLogAtomic\<close>

lemma Dir_Join [simp]: "filepath_Dir (filepath_Join dir name) = dir"
  by (simp add: filepath_Dir_def filepath_Join_def)

lemma Join_neq [simp]: "filepath_Join dir a = filepath_Join dir b \<longleftrightarrow> a = b"
  by (simp add: filepath_Join_def)

text \<open>
  Claim C1 asks that a failure to create, write or close the temporary file removes the
  temporary file, is reported, and leaves \<open>log.json\<close> untouched. The code does so when
  the write fails, but on the path where \<open>tmpFile.Close()\<close> fails (line 240) it returns
  without \<open>os.Remove(tmpPath)\<close>: the error is reported and \<open>log.json\<close> is untouched,
  yet \<open>log.tmp\<close> stays in the folder, holding the serialized log.
\<close>
theorem writeLogAtomic_close_failure_keeps_tmp:
  assumes "json_MarshalIndent E results = Inr data"
    and "lookup w folder = Some DirN"
    and "lookup w (filepath_Join folder ''log.tmp'') \<noteq> Some DirN"
    and "fault E (CreateOp (filepath_Join folder ''log.tmp'')) = None"
    and "fault E (WriteOp (filepath_Join folder ''log.tmp'')) = None"
    and "fault E (CloseOp (filepath_Join folder ''log.tmp'')) = Some err"
  shows "\<exists>w'. writeLogAtomic E w folder results = (Some (''close tmp log: '' @ err), w') \<and>
           lookup w' (filepath_Join folder ''log.tmp'') = Some (FileN data) \<and>
           lookup w' (filepath_Join folder ''log.json'') = lookup w (filepath_Join folder ''log.json'')"
  using assms
  by (simp add: writeLogAtomic_def os_Create_def file_Write_def file_Sync_def file_Close_def Let_def)

theorem writeLogAtomic_close_failure_keeps_tmp_witness:
  "json_MarshalIndent (ex_env [CloseOp [''in'', ''r_1'', ''log.tmp'']] []) [] = Inr [] \<and>
   lookup ex_world [''in'', ''r_1''] = Some DirN \<and>
   fault (ex_env [CloseOp [''in'', ''r_1'', ''log.tmp'']] []) (CloseOp [''in'', ''r_1'', ''log.tmp''])
     = Some ''permission denied'' \<and>
   fst (writeLogAtomic (ex_env [CloseOp [''in'', ''r_1'', ''log.tmp'']] []) ex_world [''in'', ''r_1''] [])
     = Some ''close tmp log: permission denied'' \<and>
   lookup (snd (writeLogAtomic (ex_env [CloseOp [''in'', ''r_1'', ''log.tmp'']] []) ex_world
       [''in'', ''r_1''] [])) [''in'', ''r_1'', ''log.tmp''] = Some (FileN [])"
proof -
  let ?E = "ex_env [CloseOp [''in'', ''r_1'', ''log.tmp'']] []"
  have j: "filepath_Join [''in'', ''r_1''] ''log.tmp'' = [''in'', ''r_1'', ''log.tmp'']"
    by (simp add: filepath_Join_def)
  have h1: "json_MarshalIndent ?E [] = Inr []" by (simp add: ex_env_def ex_marshal_def)
  have h2: "lookup ex_world [''in'', ''r_1''] = Some DirN" by (simp add: lookup_def ex_world_def)
  have h3: "lookup ex_world (filepath_Join [''in'', ''r_1''] ''log.tmp'') \<noteq> Some DirN"
    by (simp add: lookup_def ex_world_def j)
  have h4: "fault ?E (CreateOp (filepath_Join [''in'', ''r_1''] ''log.tmp'')) = None"
    by (simp add: ex_env_def j)
  have h5: "fault ?E (WriteOp (filepath_Join [''in'', ''r_1''] ''log.tmp'')) = None"
    by (simp add: ex_env_def j)
  have h6: "fault ?E (CloseOp (filepath_Join [''in'', ''r_1''] ''log.tmp'')) = Some ''permission denied''"
    by (simp add: ex_env_def j)
  from writeLogAtomic_close_failure_keeps_tmp [OF h1 h2 h3 h4 h5 h6]
  show ?thesis using h1 h2 h6 by (auto simp: j)
qed


text \<open>
  The sibling path, where the write fails (lines 231 to 235), does remove the temporary
  file, and so does the path where the publishing rename fails (line 247).
\<close>

lemma writeLogAtomic_write_failure_removes_tmp:
  assumes "json_MarshalIndent E results = Inr data"
    and "lookup w folder = Some DirN"
    and "lookup w (filepath_Join folder ''log.tmp'') \<noteq> Some DirN"
    and "fault E (CreateOp (filepath_Join folder ''log.tmp'')) = None"
    and "fault E (WriteOp (filepath_Join folder ''log.tmp'')) = Some err"
    and "fault E (RemoveOp (filepath_Join folder ''log.tmp'')) = None"
  shows "\<exists>w'. writeLogAtomic E w folder results = (Some (''write tmp log: '' @ err), w') \<and>
           lookup w' (filepath_Join folder ''log.tmp'') = None \<and>
           lookup w' (filepath_Join folder ''log.json'') = lookup w (filepath_Join folder ''log.json'')"
  using assms
  by (simp add: writeLogAtomic_def os_Create_def file_Write_def file_Close_def os_Remove_def Let_def)

subsection \<open>processFile\<close>

text \<open>
  Claim C6: in every record \<open>processFile\<close> returns, exactly one of the digest and the
  error text is populated, as the status says. When the file is opened and read to its
  end the status is \<open>success\<close>, there is no error text, and the digest field is the
  MD5 sum in lowercase hexadecimal: 32 characters out of \<open>0\<close> to \<open>9\<close> and \<open>a\<close> to \<open>f\<close>
  that, read as a hexadecimal numeral, denote the 128-bit digest of the content. When
  opening or reading fails the status is \<open>error\<close>, the error text is the description
  followed by the cause, and there is no digest.
\<close>
theorem processFile_record:
  assumes "processFile E w fullpath basename = (e, w')"
  shows "(Status e = ''success'' \<and> MD5 e \<noteq> [] \<and> Error e = [] \<or>
          Status e = ''error'' \<and> MD5 e = [] \<and> Error e \<noteq> []) \<and>
         (Status e = ''success'' \<longrightarrow> is_lower_hex (MD5 e) \<and> length (MD5 e) = 32) \<and>
         (\<forall>cause. fst (os_Open E w fullpath) = Inl cause \<longrightarrow>
            Status e = ''error'' \<and> Error e = ''failed to open file: '' @ cause) \<and>
         (\<forall>f cause. fst (os_Open E w fullpath) = Inr f \<and>
            fst (io_Copy E (snd (os_Open E w fullpath)) fullpath f) = Inl cause \<longrightarrow>
            Status e = ''error'' \<and> Error e = ''failed to read file: '' @ cause) \<and>
         (\<forall>f content. fst (os_Open E w fullpath) = Inr f \<and>
            fst (io_Copy E (snd (os_Open E w fullpath)) fullpath f) = Inr content \<longrightarrow>
            Status e = ''success'' \<and>
            MD5 e = hex_EncodeToString (hash_Sum (md5_digest E content)) \<and>
            hex_numeral (MD5 e) = Some (unat (md5_digest E content)))"
proof -
  obtain r1 w1 where o: "os_Open E w fullpath = (r1, w1)" by (cases "os_Open E w fullpath")
  show ?thesis
  proof (cases r1)
    case (Inl cause)
    with assms o show ?thesis by (auto simp: processFile_def Let_def)
  next
    case (Inr f)
    obtain r2 w2 where c: "io_Copy E w1 fullpath f = (r2, w2)" by (cases "io_Copy E w1 fullpath f")
    show ?thesis
    proof (cases r2)
      case (Inl cause)
      with assms o c Inr show ?thesis by (auto simp: processFile_def Let_def)
    next
      case content: (Inr content)
      have "length (hex_EncodeToString (hash_Sum (md5_digest E content))) = 32"
        by (simp add: length_hex length_hash_Sum)
      moreover have "is_lower_hex (hex_EncodeToString (hash_Sum (md5_digest E content)))"
        by (rule is_lower_hex_encode)
      moreover have "hex_numeral (hex_EncodeToString (hash_Sum (md5_digest E content)))
          = Some (unat (md5_digest E content))"
        by (rule hex_numeral_digest)
      ultimately show ?thesis using assms o c Inr content
        by (auto simp: processFile_def Let_def)
    qed
  qed
qed

theorem processFile_record_witness:
  "fst (os_Open (ex_env [] []) ex_world [''in'', ''r_1'', ''a.txt'']) = Inr (FileN [104, 105]) \<and>
   md5_digest (ex_env [] []) [104, 105] = 0x0123456789abcdeffedcba9876543212 \<and>
   Status (fst (processFile (ex_env [] []) ex_world [''in'', ''r_1'', ''a.txt''] ''a.txt'')) = ''success'' \<and>
   MD5 (fst (processFile (ex_env [] []) ex_world [''in'', ''r_1'', ''a.txt''] ''a.txt''))
     = ''0123456789abcdeffedcba9876543212'' \<and>
   hex_numeral (MD5 (fst (processFile (ex_env [] []) ex_world [''in'', ''r_1'', ''a.txt''] ''a.txt'')))
     = Some (unat (0x0123456789abcdeffedcba9876543212 :: 128 word)) \<and>
   Error (fst (processFile (ex_env [] []) ex_world [''in'', ''r_1'', ''a.txt''] ''a.txt'')) = [] \<and>
   is_lower_hex (MD5 (fst (processFile (ex_env [] []) ex_world [''in'', ''r_1'', ''a.txt''] ''a.txt''))) \<and>
   fst (os_Open (ex_env [OpenOp [''in'', ''r_1'', ''a.txt'']] []) ex_world [''in'', ''r_1'', ''a.txt''])
     = Inl ''permission denied'' \<and>
   Status (fst (processFile (ex_env [OpenOp [''in'', ''r_1'', ''a.txt'']] []) ex_world
       [''in'', ''r_1'', ''a.txt''] ''a.txt'')) = ''error'' \<and>
   Error (fst (processFile (ex_env [OpenOp [''in'', ''r_1'', ''a.txt'']] []) ex_world
       [''in'', ''r_1'', ''a.txt''] ''a.txt'')) = ''failed to open file: permission denied'' \<and>
   MD5 (fst (processFile (ex_env [OpenOp [''in'', ''r_1'', ''a.txt'']] []) ex_world
       [''in'', ''r_1'', ''a.txt''] ''a.txt'')) = []"
proof -
  let ?p = "[''in'', ''r_1'', ''a.txt'']"
  let ?E = "ex_env [] []"
  let ?F = "ex_env [OpenOp ?p] []"
  have o1: "fst (os_Open ?E ex_world ?p) = Inr (FileN [104, 105])" by code_simp
  have c1: "fst (io_Copy ?E (snd (os_Open ?E ex_world ?p)) ?p (FileN [104, 105])) = Inr [104, 105]"
    by code_simp
  have d1: "md5_digest ?E [104, 105] = 0x0123456789abcdeffedcba9876543212"
    by (simp add: ex_env_def)
  have m1: "hex_EncodeToString (hash_Sum (0x0123456789abcdeffedcba9876543212))
      = ''0123456789abcdeffedcba9876543212''"
    by code_simp
  have o2: "fst (os_Open ?F ex_world ?p) = Inl ''permission denied''" by code_simp
  have p1: "processFile ?E ex_world ?p ''a.txt'' =
      (fst (processFile ?E ex_world ?p ''a.txt''), snd (processFile ?E ex_world ?p ''a.txt''))"
    by simp
  have p2: "processFile ?F ex_world ?p ''a.txt'' =
      (fst (processFile ?F ex_world ?p ''a.txt''), snd (processFile ?F ex_world ?p ''a.txt''))"
    by simp
  have s1: "Status (fst (processFile ?E ex_world ?p ''a.txt'')) = ''success'' \<and>
      MD5 (fst (processFile ?E ex_world ?p ''a.txt'')) =
        hex_EncodeToString (hash_Sum (md5_digest ?E [104, 105])) \<and>
      hex_numeral (MD5 (fst (processFile ?E ex_world ?p ''a.txt''))) =
        Some (unat (md5_digest ?E [104, 105]))"
    using processFile_record [OF p1] o1 c1 by blast
  then have s2: "is_lower_hex (MD5 (fst (processFile ?E ex_world ?p ''a.txt''))) \<and>
      Error (fst (processFile ?E ex_world ?p ''a.txt'')) = []"
    using processFile_record [OF p1] by auto
  have s3: "Status (fst (processFile ?F ex_world ?p ''a.txt'')) = ''error'' \<and>
      Error (fst (processFile ?F ex_world ?p ''a.txt'')) = ''failed to open file: '' @ ''permission denied''"
    using processFile_record [OF p2] o2 by blast
  then have s4: "MD5 (fst (processFile ?F ex_world ?p ''a.txt'')) = []"
    using processFile_record [OF p2] by auto
  from s1 have "MD5 (fst (processFile ?E ex_world ?p ''a.txt'')) =
      hex_EncodeToString (hash_Sum (md5_digest ?E [104, 105]))" by blast
  then have f1: "MD5 (fst (processFile ?E ex_world ?p ''a.txt'')) = ''0123456789abcdeffedcba9876543212''"
    by (simp only: d1 m1)
  from s1 have "hex_numeral (MD5 (fst (processFile ?E ex_world ?p ''a.txt''))) =
      Some (unat (md5_digest ?E [104, 105]))" by blast
  then have f2: "hex_numeral (MD5 (fst (processFile ?E ex_world ?p ''a.txt'')))
      = Some (unat (0x0123456789abcdeffedcba9876543212 :: 128 word))"
    by (simp only: d1)
  have f3: "Error (fst (processFile ?F ex_world ?p ''a.txt'')) = ''failed to open file: permission denied''"
    using s3 by simp
  show ?thesis using s1 s2 s3 s4 o1 o2 d1 f1 f2 f3 by blast
qed

text \<open>
  Claim C7 says the timestamp of a record marks the moment processing of the file
  completed. In the example run the record of \<open>a.txt\<close> carries the clock reading taken
  on entry, second 00, while the call completes three steps later, at second 03.
\<close>
theorem processFile_timestamp_not_completion:
  "Timestamp (fst (processFile (ex_env [] []) ex_world [''in'', ''r_1'', ''a.txt''] ''a.txt''))
     = ''2025-04-16T15:22:00Z'' \<and>
   format_RFC3339 (time_Now (ex_env [] [])
       (snd (processFile (ex_env [] []) ex_world [''in'', ''r_1'', ''a.txt''] ''a.txt'')))
     = ''2025-04-16T15:22:03Z'' \<and>
   Timestamp (fst (processFile (ex_env [] []) ex_world [''in'', ''r_1'', ''a.txt''] ''a.txt'')) \<noteq>
   format_RFC3339 (time_Now (ex_env [] [])
       (snd (processFile (ex_env [] []) ex_world [''in'', ''r_1'', ''a.txt''] ''a.txt'')))"
  by code_simp

text \<open>
  Claim C7 as amended: the timestamp of a record is the clock reading taken when
  \<open>processFile\<close> is entered, before the file is opened, in UTC and formatted by
  \<open>time.RFC3339\<close>; for a reading within the calendar it has the shape
  \<open>YYYY-MM-DDThh:mm:ssZ\<close>.
\<close>
theorem processFile_timestamp_at_entry:
  "Timestamp (fst (processFile E w fullpath basename)) = format_RFC3339 (time_Now E w) \<and>
   (valid_utc (time_Now E w) \<longrightarrow> is_RFC3339_utc (Timestamp (fst (processFile E w fullpath basename))))"
proof -
  have "Timestamp (fst (processFile E w fullpath basename)) = format_RFC3339 (time_Now E w)"
    by (simp add: processFile_def Let_def split: prod.splits sum.splits)
  then show ?thesis by (simp add: format_RFC3339_shape)
qed

theorem processFile_timestamp_at_entry_witness:
  "valid_utc (time_Now (ex_env [] []) ex_world) \<and>
   Timestamp (fst (processFile (ex_env [] []) ex_world [''in'', ''r_1'', ''a.txt''] ''a.txt''))
     = format_RFC3339 (time_Now (ex_env [] []) ex_world) \<and>
   is_RFC3339_utc (Timestamp (fst (processFile (ex_env [] []) ex_world [''in'', ''r_1'', ''a.txt''] ''a.txt'')))"
proof -
  have v: "valid_utc (time_Now (ex_env [] []) ex_world)" by code_simp
  show ?thesis
    using processFile_timestamp_at_entry [of "ex_env [] []" ex_world "[''in'', ''r_1'', ''a.txt'']" "''a.txt''"] v
    by blast
qed


subsection \<open>renameFolderSafe\<close>

lemma renameFolderSafe_eq:
  assumes "name = targetPrefix ok @ folder_id (filepath_Base src)"
    and "final = (if lookup w (filepath_Join (filepath_Dir src) name) = None then name
                  else name @ ''_'' @ format_compact (clock E (Suc (tick w))))"
  shows "renameFolderSafe E w src ok =
           (case os_Rename E (advance w) src (filepath_Join (filepath_Dir src) final) of
              (Some err, w2) \<Rightarrow>
                (Some (''os.Rename '' @ path_text src @ '' -> '' @
                       path_text (filepath_Join (filepath_Dir src) final) @ '': '' @ err), w2)
            | (None, w2) \<Rightarrow> (None, w2))"
proof -
  have t: "rename_target E w src ok = (filepath_Join (filepath_Dir src) final, advance w)"
    unfolding assms(2) assms(1) by (simp add: rename_target_eq Let_def)
  show ?thesis by (simp add: renameFolderSafe_def t)
qed

lemma renameFolderSafe_moves:
  assumes "name = targetPrefix ok @ folder_id (filepath_Base src)"
    and "final = (if lookup w (filepath_Join (filepath_Dir src) name) = None then name
                  else name @ ''_'' @ format_compact (clock E (Suc (tick w))))"
    and "lookup w src = Some DirN" "src \<noteq> []"
    and "lookup w (filepath_Join (filepath_Dir src) final) = None"
    and "fault E (RenameOp src (filepath_Join (filepath_Dir src) final)) = None"
  shows "\<exists>w'. renameFolderSafe E w src ok = (None, w') \<and> renamed_to w w' src final"
proof -
  have a: "lookup (advance w) src = Some DirN"
    "lookup (advance w) (filepath_Join (filepath_Dir src) final) = None"
    using assms by simp_all
  note r = renamed_dir [of "advance w" src final E, OF a(1) assms(4) a(2) assms(6)]
  have "renamed_to w (advance (advance w\<lparr>fsys := move_tree src (filepath_Join (filepath_Dir src) final)
      (fsys (advance w))\<rparr>)) src final"
    using r(2) by (simp add: renamed_to_def)
  then show ?thesis using r(1) by (simp add: renameFolderSafe_eq [OF assms(1,2)])
qed

text \<open>
  Claim C10: for a folder whose base name does not start with \<open>r_\<close>, \<open>renameFolderSafe\<close>
  does not reject the input. The identifier it keeps is the substring after the first
  underscore when the name has one and the whole name otherwise; the name it renames
  to is the status prefix followed by that identifier, with \<open>_\<close> and the timestamp
  behind it when something stands at that name already (as the folder itself does
  when it is finalized again with the same verdict). The function is \<open>os.Rename\<close> of
  the folder to this name, and where that call is not refused the folder ends up under
  this name.
\<close>
theorem renameFolderSafe_without_marker:
  assumes "\<not> strings_HasPrefix (filepath_Base src) ''r_''"
    and "name = targetPrefix ok @ spec_stable_id (filepath_Base src)"
    and "final = (if lookup w (filepath_Join (filepath_Dir src) name) = None then name
                  else name @ ''_'' @ format_compact (clock E (Suc (tick w))))"
  shows "folder_id (filepath_Base src) = spec_stable_id (filepath_Base src) \<and>
         renameFolderSafe E w src ok =
           (case os_Rename E (advance w) src (filepath_Join (filepath_Dir src) final) of
              (Some err, w2) \<Rightarrow>
                (Some (''os.Rename '' @ path_text src @ '' -> '' @
                       path_text (filepath_Join (filepath_Dir src) final) @ '': '' @ err), w2)
            | (None, w2) \<Rightarrow> (None, w2)) \<and>
         (lookup w src = Some DirN \<and> src \<noteq> [] \<and>
          lookup w (filepath_Join (filepath_Dir src) final) = None \<and>
          fault E (RenameOp src (filepath_Join (filepath_Dir src) final)) = None \<longrightarrow>
            (\<exists>w'. renameFolderSafe E w src ok = (None, w') \<and> renamed_to w w' src final))"
proof -
  have n: "name = targetPrefix ok @ folder_id (filepath_Base src)"
    using assms(2) by (simp add: folder_id_spec)
  show ?thesis
    using renameFolderSafe_eq [OF n assms(3)] renameFolderSafe_moves [OF n assms(3)]
    by (auto simp: folder_id_spec)
qed

theorem renameFolderSafe_without_marker_witness:
  "\<not> strings_HasPrefix (filepath_Base [''in'', ''job_7'']) ''r_'' \<and>
   spec_stable_id (filepath_Base [''in'', ''job_7'']) = ''7'' \<and>
   folder_id (filepath_Base [''in'', ''job_7'']) = ''7'' \<and>
   lookup ex_world [''in'', ''d_7''] = None \<and>
   fst (renameFolderSafe (ex_env [] []) ex_world [''in'', ''job_7''] True) = None \<and>
   renamed_to ex_world (snd (renameFolderSafe (ex_env [] []) ex_world [''in'', ''job_7''] True))
     [''in'', ''job_7''] ''d_7'' \<and>
   \<not> strings_HasPrefix (filepath_Base [''in'', ''plain'']) ''r_'' \<and>
   spec_stable_id (filepath_Base [''in'', ''plain'']) = ''plain'' \<and>
   renamed_to ex_world (snd (renameFolderSafe (ex_env [] []) ex_world [''in'', ''plain''] False))
     [''in'', ''plain''] ''f_plain'' \<and>
   \<not> strings_HasPrefix (filepath_Base [''in'', ''d_4'']) ''r_'' \<and>
   spec_stable_id (filepath_Base [''in'', ''d_4'']) = ''4'' \<and>
   lookup ex_world [''in'', ''d_4''] = Some DirN \<and>
   renamed_to ex_world (snd (renameFolderSafe (ex_env [] []) ex_world [''in'', ''d_4''] True))
     [''in'', ''d_4''] ''d_4_20250416T152201Z''"
proof -
  let ?E = "ex_env [] []"
  have a1: "\<not> strings_HasPrefix (filepath_Base [''in'', ''job_7'']) ''r_''" by code_simp
  have a2: "''d_7'' = targetPrefix True @ spec_stable_id (filepath_Base [''in'', ''job_7''])"
    by code_simp
  have a3: "''d_7'' = (if lookup ex_world (filepath_Join (filepath_Dir [''in'', ''job_7'']) ''d_7'') = None
      then ''d_7'' else ''d_7'' @ ''_'' @ format_compact (clock ?E (Suc (tick ex_world))))"
    by code_simp
  have a4: "lookup ex_world [''in'', ''job_7''] = Some DirN \<and> [''in'', ''job_7''] \<noteq> [] \<and>
      lookup ex_world (filepath_Join (filepath_Dir [''in'', ''job_7'']) ''d_7'') = None \<and>
      fault ?E (RenameOp [''in'', ''job_7''] (filepath_Join (filepath_Dir [''in'', ''job_7'']) ''d_7'')) = None"
    by code_simp
  have i1: "spec_stable_id (filepath_Base [''in'', ''job_7'']) = ''7''" by code_simp
  have f1: "lookup ex_world [''in'', ''d_7''] = None" by code_simp
  from renameFolderSafe_without_marker [OF a1 a2 a3]
  have "folder_id (filepath_Base [''in'', ''job_7'']) = spec_stable_id (filepath_Base [''in'', ''job_7''])"
    and "\<exists>w'. renameFolderSafe ?E ex_world [''in'', ''job_7''] True = (None, w') \<and>
      renamed_to ex_world w' [''in'', ''job_7''] ''d_7''"
    using a4 by blast+
  then have r1: "folder_id (filepath_Base [''in'', ''job_7'']) = ''7'' \<and>
      fst (renameFolderSafe ?E ex_world [''in'', ''job_7''] True) = None \<and>
      renamed_to ex_world (snd (renameFolderSafe ?E ex_world [''in'', ''job_7''] True))
        [''in'', ''job_7''] ''d_7''"
    using i1 by force
  have b1: "\<not> strings_HasPrefix (filepath_Base [''in'', ''plain'']) ''r_''" by code_simp
  have b2: "''f_plain'' = targetPrefix False @ spec_stable_id (filepath_Base [''in'', ''plain''])"
    by code_simp
  have b3: "''f_plain'' = (if lookup ex_world (filepath_Join (filepath_Dir [''in'', ''plain'']) ''f_plain'') = None
      then ''f_plain'' else ''f_plain'' @ ''_'' @ format_compact (clock ?E (Suc (tick ex_world))))"
    by code_simp
  have b4: "lookup ex_world [''in'', ''plain''] = Some DirN \<and> [''in'', ''plain''] \<noteq> [] \<and>
      lookup ex_world (filepath_Join (filepath_Dir [''in'', ''plain'']) ''f_plain'') = None \<and>
      fault ?E (RenameOp [''in'', ''plain''] (filepath_Join (filepath_Dir [''in'', ''plain'']) ''f_plain'')) = None"
    by code_simp
  have i2: "spec_stable_id (filepath_Base [''in'', ''plain'']) = ''plain''" by code_simp
  from renameFolderSafe_without_marker [OF b1 b2 b3]
  have "\<exists>w'. renameFolderSafe ?E ex_world [''in'', ''plain''] False = (None, w') \<and>
      renamed_to ex_world w' [''in'', ''plain''] ''f_plain''"
    using b4 by blast
  then have r2: "renamed_to ex_world (snd (renameFolderSafe ?E ex_world [''in'', ''plain''] False))
        [''in'', ''plain''] ''f_plain''"
    by force
  have c1: "\<not> strings_HasPrefix (filepath_Base [''in'', ''d_4'']) ''r_''" by code_simp
  have c2: "''d_4'' = targetPrefix True @ spec_stable_id (filepath_Base [''in'', ''d_4''])"
    by code_simp
  have c3: "''d_4_20250416T152201Z'' =
      (if lookup ex_world (filepath_Join (filepath_Dir [''in'', ''d_4'']) ''d_4'') = None
       then ''d_4'' else ''d_4'' @ ''_'' @ format_compact (clock ?E (Suc (tick ex_world))))"
    by code_simp
  have c4: "lookup ex_world [''in'', ''d_4''] = Some DirN \<and> [''in'', ''d_4''] \<noteq> [] \<and>
      lookup ex_world (filepath_Join (filepath_Dir [''in'', ''d_4'']) ''d_4_20250416T152201Z'') = None \<and>
      fault ?E (RenameOp [''in'', ''d_4'']
        (filepath_Join (filepath_Dir [''in'', ''d_4'']) ''d_4_20250416T152201Z'')) = None"
    by code_simp
  have i3: "spec_stable_id (filepath_Base [''in'', ''d_4'']) = ''4''" by code_simp
  from renameFolderSafe_without_marker [OF c1 c2 c3]
  have "\<exists>w'. renameFolderSafe ?E ex_world [''in'', ''d_4''] True = (None, w') \<and>
      renamed_to ex_world w' [''in'', ''d_4''] ''d_4_20250416T152201Z''"
    using c4 by blast
  then have r3: "renamed_to ex_world (snd (renameFolderSafe ?E ex_world [''in'', ''d_4''] True))
        [''in'', ''d_4''] ''d_4_20250416T152201Z''"
    by force
  have d4: "lookup ex_world [''in'', ''d_4''] = Some DirN" using c4 by blast
  show ?thesis using a1 i1 f1 r1 b1 i2 r2 c1 i3 d4 r3 by blast
qed

text \<open>
  Claim C9: when a directory stands at the computed target name, the folder is to be
  renamed to that name with a UTC timestamp behind it, a name that is distinct, so
  that the rename neither overwrites nor fails. The code means this too (line 255,
  \<open>to avoid conflicts\<close>; line 283, \<open>to keep rename atomic and unique\<close>), but the
  suffix has a resolution of one second and the code never looks whether the suffixed
  name is free. Here both \<open>d_5\<close> and \<open>d_5_20250416T152201Z\<close> exist when \<open>r_5\<close> is
  finalized at that second: \<open>os.Rename\<close> is refused and the folder keeps its name.
\<close>
theorem renameFolderSafe_suffix_collides:
  "lookup ex_world [''in'', ''r_5''] = Some DirN \<and>
   lookup ex_world [''in'', ''d_5''] = Some DirN \<and>
   fst (renameFolderSafe (ex_env [] []) ex_world [''in'', ''r_5''] True)
     = Some ''os.Rename in/r_5 -> in/d_5_20250416T152201Z: file exists'' \<and>
   lookup (snd (renameFolderSafe (ex_env [] []) ex_world [''in'', ''r_5''] True)) [''in'', ''r_5'']
     = Some DirN"
  by code_simp

text \<open>
  Where nothing stands at the suffixed name and the rename is not refused, the code
  does what the claim says: the folder is moved to the suffixed name, and a directory
  at the target name that is not the folder itself is left as it was, with everything
  below it.
\<close>

lemma renameFolderSafe_collision:
  assumes "lookup w src = Some DirN" "src \<noteq> []"
    and "target = filepath_Join (filepath_Dir src) (targetPrefix ok @ folder_id (filepath_Base src))"
    and "lookup w target = Some DirN" "target \<noteq> src"
    and "name = targetPrefix ok @ folder_id (filepath_Base src) @ ''_'' @
           format_compact (clock E (Suc (tick w)))"
    and "lookup w (filepath_Join (filepath_Dir src) name) = None"
    and "fault E (RenameOp src (filepath_Join (filepath_Dir src) name)) = None"
  shows "\<exists>w'. renameFolderSafe E w src ok = (None, w') \<and> renamed_to w w' src name \<and>
           (\<forall>rest. lookup w' (target @ rest) = lookup w (target @ rest))"
proof -
  have t: "rename_target E w src ok = (filepath_Join (filepath_Dir src) name, advance w)"
    using assms(3,4,6) by (simp add: rename_target_eq Let_def)
  have a: "lookup (advance w) src = Some DirN"
    "lookup (advance w) (filepath_Join (filepath_Dir src) name) = None"
    using assms by simp_all
  note r = renamed_dir [of "advance w" src name E, OF a(1) assms(2) a(2) assms(8)]
  let ?w' = "advance (advance w\<lparr>fsys := move_tree src (filepath_Join (filepath_Dir src) name)
      (fsys (advance w))\<rparr>)"
  have 1: "renamed_to w ?w' src name" using r(2) by (simp add: renamed_to_def)
  have len: "length target = length src" using assms(2,3) by (simp add: length_sibling)
  have ne: "target \<noteq> filepath_Join (filepath_Dir src) name" using assms(3,6) by simp
  have 2: "lookup ?w' (target @ rest) = lookup w (target @ rest)" for rest
    using r(3) [OF len assms(5) ne, of rest] by simp
  show ?thesis using r(1) 1 2 by (simp add: renameFolderSafe_def t)
qed

lemma renameFolderSafe_collision_example:
  "lookup ex_world [''in'', ''r_4''] = Some DirN \<and>
   lookup ex_world [''in'', ''d_4''] = Some DirN \<and>
   lookup ex_world [''in'', ''d_4_20250416T152201Z''] = None \<and>
   fst (renameFolderSafe (ex_env [] []) ex_world [''in'', ''r_4''] True) = None \<and>
   renamed_to ex_world (snd (renameFolderSafe (ex_env [] []) ex_world [''in'', ''r_4''] True))
     [''in'', ''r_4''] ''d_4_20250416T152201Z'' \<and>
   lookup (snd (renameFolderSafe (ex_env [] []) ex_world [''in'', ''r_4''] True)) [''in'', ''d_4'']
     = Some DirN"
proof -
  let ?E = "ex_env [] []"
  let ?src = "[''in'', ''r_4'']"
  have n: "targetPrefix True @ folder_id (filepath_Base ?src) @ ''_'' @
      format_compact (clock ?E (Suc (tick ex_world))) = ''d_4_20250416T152201Z''" by code_simp
  have tg: "filepath_Join (filepath_Dir ?src) (targetPrefix True @ folder_id (filepath_Base ?src))
      = [''in'', ''d_4'']" by code_simp
  have a1: "lookup ex_world ?src = Some DirN" by code_simp
  have a2: "?src \<noteq> []" by simp
  have a4: "lookup ex_world [''in'', ''d_4''] = Some DirN" by code_simp
  have a5: "[''in'', ''d_4''] \<noteq> ?src" by simp
  have a7: "lookup ex_world (filepath_Join (filepath_Dir ?src) ''d_4_20250416T152201Z'') = None"
    by code_simp
  have a8: "fault ?E (RenameOp ?src (filepath_Join (filepath_Dir ?src) ''d_4_20250416T152201Z'')) = None"
    by (simp add: ex_env_def)
  have j: "filepath_Join (filepath_Dir ?src) ''d_4_20250416T152201Z'' = [''in'', ''d_4_20250416T152201Z'']"
    by code_simp
  from renameFolderSafe_collision [OF a1 a2 tg [symmetric] a4 a5 n [symmetric] a7 a8]
  obtain w' where w': "renameFolderSafe ?E ex_world ?src True = (None, w')"
    "renamed_to ex_world w' ?src ''d_4_20250416T152201Z''"
    "\<forall>rest. lookup w' ([''in'', ''d_4''] @ rest) = lookup ex_world ([''in'', ''d_4''] @ rest)"
    by blast
  from w'(3) have "lookup w' ([''in'', ''d_4''] @ []) = lookup ex_world ([''in'', ''d_4''] @ [])"
    by blast
  then have "lookup w' [''in'', ''d_4''] = Some DirN" using a4 by simp
  then show ?thesis using w'(1,2) a1 a4 a7 by (simp add: j)
qed

subsection \<open>What the steps of processFolder leave in place\<close>

lemma lookup_processFile [simp]: "lookup (snd (processFile E w p b)) q = lookup w q"
  by (simp add: processFile_def os_Open_def io_Copy_def file_Close_def Let_def
      split: option.splits node.splits)

lemma lookup_hash_files [simp]: "lookup (snd (hash_files E w folder fs)) q = lookup w q"
proof (induction fs arbitrary: w)
  case Nil
  show ?case by simp
next
  case (Cons f fs)
  obtain entry w1 where pf: "processFile E w (filepath_Join folder (Name f)) (Name f) = (entry, w1)"
    by (cases "processFile E w (filepath_Join folder (Name f)) (Name f)")
  obtain rest w2 where hf: "hash_files E w1 folder fs = (rest, w2)"
    by (cases "hash_files E w1 folder fs")
  have "lookup w1 q = lookup w q"
    using lookup_processFile [of E w "filepath_Join folder (Name f)" "Name f" q] pf by simp
  moreover have "lookup w2 q = lookup w1 q" using Cons.IH [of w1] hf by simp
  ultimately show ?case by (simp add: pf hf)
qed

lemma lookup_run_pool [simp]: "lookup (snd (run_pool E w folder c files)) q = lookup w q"
proof -
  obtain entries w1 where hf: "hash_files E w folder files = (entries, w1)"
    by (cases "hash_files E w folder files")
  then have "lookup w1 q = lookup w q" using lookup_hash_files [of E w folder files q] by simp
  then show ?thesis by (simp add: run_pool_def hf Let_def)
qed

lemma os_ReadDir_world: "snd (os_ReadDir E w dir) = advance w"
  by (simp add: os_ReadDir_def split: option.splits node.splits)

lemma os_ReadDir_ok: "os_ReadDir E w dir = (Inr des, w1) \<Longrightarrow> lookup w dir = Some DirN"
  by (simp add: os_ReadDir_def split: option.splits node.splits)

lemma os_Remove_other: "q \<noteq> p \<Longrightarrow> lookup (snd (os_Remove E w p)) q = lookup w q"
  by (simp add: os_Remove_def split: option.splits node.splits)

lemma os_Rename_failed: "os_Rename E w old new = (Some e, w') \<Longrightarrow> lookup w' q = lookup w q"
  by (auto simp: os_Rename_def split: option.splits node.splits if_splits)

lemma writeLogAtomic_other:
  assumes "q \<noteq> filepath_Join folder ''log.tmp''" "q \<noteq> filepath_Join folder ''log.json''"
  shows "lookup (snd (writeLogAtomic E w folder rs)) q = lookup w q"
  using assms
  by (auto simp: writeLogAtomic_def os_Create_def file_Write_def file_Sync_def file_Close_def
      os_Rename_def os_Remove_def Let_def
      split: sum.splits option.splits node.splits prod.splits if_splits)



subsection \<open>The finalizer\<close>

lemma HasPrefix_append [simp]: "strings_HasPrefix (pre @ s) pre"
  by (simp add: strings_HasPrefix_def)

lemma renameFolderSafe_failed:
  assumes "renameFolderSafe E w src ok = (Some e, w')"
  shows "lookup w' q = lookup w q"
proof -
  obtain target w1 where t: "rename_target E w src ok = (target, w1)"
    by (cases "rename_target E w src ok")
  then have w1: "w1 = advance w" by (auto simp: rename_target_eq Let_def split: if_splits)
  obtain r w2 where r: "os_Rename E w1 src target = (r, w2)" by (cases "os_Rename E w1 src target")
  with assms t obtain e' where "r = Some e'" "w2 = w'"
    by (cases r) (auto simp: renameFolderSafe_def)
  with r have "lookup w' q = lookup w1 q" using os_Rename_failed by blast
  then show ?thesis by (simp add: w1)
qed

lemma renameFolderSafe_done:
  assumes "renameFolderSafe E w src ok = (None, w')" "lookup w src = Some DirN"
  shows "\<exists>name. strings_HasPrefix name (targetPrefix ok) \<and> renamed_to w w' src name \<and>
           (\<forall>rest. lookup w' (filepath_Join (filepath_Dir src) name @ rest) = lookup w (src @ rest))"
proof -
  obtain target w1 where t: "rename_target E w src ok = (target, w1)"
    by (cases "rename_target E w src ok")
  then have w1: "w1 = advance w" by (auto simp: rename_target_eq Let_def split: if_splits)
  from t obtain name where name: "target = filepath_Join (filepath_Dir src) name"
    "strings_HasPrefix name (targetPrefix ok)"
    by (auto simp: rename_target_eq Let_def split: if_splits)
  have r: "os_Rename E w1 src target = (None, w')"
    using assms(1) t by (auto simp: renameFolderSafe_def split: prod.splits option.splits)
  have src: "lookup w1 src = Some DirN" using assms(2) w1 by simp
  from r src have free: "lookup w1 target = None" and nb: "\<not> beneath src target"
    and nf: "fault E (RenameOp src target) = None"
    by (auto simp: os_Rename_def split: option.splits if_splits)
  have ne: "src \<noteq> []" using nb by (auto simp: beneath_def)
  note d = renamed_dir [of w1 src name E, OF src ne free [unfolded name(1)] nf [unfolded name(1)]]
  from d(1) r have w': "w' = advance (w1\<lparr>fsys := move_tree src (filepath_Join (filepath_Dir src) name)
      (fsys w1)\<rparr>)" by (simp add: name(1))
  have "renamed_to w w' src name" using d(2) by (simp add: renamed_to_def w' w1)
  moreover have "lookup w' (filepath_Join (filepath_Dir src) name @ rest) = lookup w (src @ rest)" for rest
    using d(4) [of rest] by (simp add: w' w1)
  ultimately show ?thesis using name(2) by blast
qed

subsection \<open>processFolder, step by step\<close>

lemma before_log_Some:
  assumes "before_log E w folder c = Some (records, w2)"
  obtains des where "os_ReadDir E w folder = (Inr des, advance w)"
    and "0 < c \<or> collect_files des = []" and "0 \<le> c"
    and "run_pool E (advance w) folder c (collect_files des) = (records, w2)"
proof -
  obtain r w1 where rd: "os_ReadDir E w folder = (r, w1)" by (cases "os_ReadDir E w folder")
  then have w1: "w1 = advance w" using os_ReadDir_world [of E w folder] by simp
  from assms rd obtain des where r: "r = Inr des" by (cases r) (auto simp: before_log_def)
  from assms rd r have c: "\<not> (c < 0 \<or> c = 0 \<and> collect_files des \<noteq> [])"
    and rp: "run_pool E w1 folder c (collect_files des) = (records, w2)"
    by (auto simp: before_log_def Let_def split: if_splits)
  from c have "0 < c \<or> collect_files des = []" "0 \<le> c" by auto
  with rd r rp w1 that show ?thesis by blast
qed

lemma before_log_lookup:
  assumes "before_log E w folder c = Some (records, w2)"
  shows "lookup w2 q = lookup w q" "lookup w folder = Some DirN"
proof -
  from assms obtain des where rd: "os_ReadDir E w folder = (Inr des, advance w)"
    and rp: "run_pool E (advance w) folder c (collect_files des) = (records, w2)"
    by (rule before_log_Some)
  show "lookup w2 q = lookup w q"
    using lookup_run_pool [of E "advance w" folder c "collect_files des" q] rp by simp
  show "lookup w folder = Some DirN" using rd by (rule os_ReadDir_ok)
qed

lemma processFolder_after_scan:
  assumes "before_log E w folder c = Some (records, w2)"
  shows "processFolder E w folder c =
    (case writeLogAtomic E w2 folder records of
       (Some err, w3) \<Rightarrow>
         (case renameFolderSafe E w3 folder False of
            (Some renameErr, w4) \<Rightarrow>
              (Returned (Some (''logging error: '' @ err @ ''; folder rename error: '' @ renameErr)), w4)
          | (None, w4) \<Rightarrow> (Returned (Some (''failed to write log: '' @ err)), w4))
     | (None, w3) \<Rightarrow>
         (case renameFolderSafe E w3 folder (allSuccess_loop records) of
            (Some err, w4) \<Rightarrow> (Returned (Some (''rename folder: '' @ err)), w4)
          | (None, w4) \<Rightarrow> (Returned None, w4)))"
proof -
  from assms obtain des where rd: "os_ReadDir E w folder = (Inr des, advance w)"
    and c: "0 < c \<or> collect_files des = []" "0 \<le> c"
    and rp: "run_pool E (advance w) folder c (collect_files des) = (records, w2)"
    by (rule before_log_Some)
  from c show ?thesis by (auto simp add: processFolder_def rd rp Let_def)
qed

lemma processFolder_returned_nil:
  assumes "processFolder E w folder c = (Returned None, w')"
  obtains records w2 w3 where "before_log E w folder c = Some (records, w2)"
    and "writeLogAtomic E w2 folder records = (None, w3)"
    and "renameFolderSafe E w3 folder (allSuccess_loop records) = (None, w')"
proof -
  obtain r w1 where rd: "os_ReadDir E w folder = (r, w1)" by (cases "os_ReadDir E w folder")
  from assms rd obtain des where r: "r = Inr des" by (cases r) (auto simp: processFolder_def)
  from assms rd r have c: "\<not> c < 0" "\<not> (c = 0 \<and> collect_files des \<noteq> [])"
    by (auto simp: processFolder_def Let_def split: if_splits)
  obtain records w2 where rp: "run_pool E w1 folder c (collect_files des) = (records, w2)"
    by (cases "run_pool E w1 folder c (collect_files des)")
  have bl: "before_log E w folder c = Some (records, w2)"
    using rd r c rp by (simp add: before_log_def Let_def)
  obtain l w3 where wl: "writeLogAtomic E w2 folder records = (l, w3)"
    by (cases "writeLogAtomic E w2 folder records")
  from assms have pf: "(case writeLogAtomic E w2 folder records of
       (Some err, w3) \<Rightarrow>
         (case renameFolderSafe E w3 folder False of
            (Some renameErr, w4) \<Rightarrow>
              (Returned (Some (''logging error: '' @ err @ ''; folder rename error: '' @ renameErr)), w4)
          | (None, w4) \<Rightarrow> (Returned (Some (''failed to write log: '' @ err)), w4))
     | (None, w3) \<Rightarrow>
         (case renameFolderSafe E w3 folder (allSuccess_loop records) of
            (Some err, w4) \<Rightarrow> (Returned (Some (''rename folder: '' @ err)), w4)
          | (None, w4) \<Rightarrow> (Returned None, w4))) = (Returned None, w')"
    using processFolder_after_scan [OF bl] by simp
  then have l: "l = None" using wl by (cases l) (auto split: prod.splits option.splits)
  with pf wl have "renameFolderSafe E w3 folder (allSuccess_loop records) = (None, w')"
    by (auto split: prod.splits option.splits)
  with bl wl l that show ?thesis by blast
qed

subsection \<open>The records of a folder\<close>

lemma deliver_Nil [simp]: "deliver slots [] ks = []"
  by (cases ks) simp_all

lemma hash_files_Nil_iff: "fst (hash_files E w folder fs) = [] \<longleftrightarrow> fs = []"
  using hash_files_names [of E w folder fs] by (metis map_is_Nil_conv)

lemma run_pool_names:
  assumes "0 < c \<or> files = []"
  shows "map Filename (fst (run_pool E w folder c files)) = sort (map Name files)"
proof -
  obtain entries w1 where hf: "hash_files E w folder files = (entries, w1)"
    by (cases "hash_files E w folder files")
  have names: "map Filename entries = map Name files"
    using hash_files_names [of E w folder files] hf by simp
  have "0 < nat c \<or> entries = []"
    using assms hash_files_Nil_iff [of E w folder files] hf by auto
  then have "mset (deliver (nat c) entries (completion E)) = mset entries"
    by (rule mset_deliver)
  then have "mset (map Filename (sort_key Filename (deliver (nat c) entries (completion E))))
      = mset (map Name files)"
    using names by (metis mset_map mset_sort)
  moreover have "sorted (map Filename (sort_key Filename (deliver (nat c) entries (completion E))))"
    by (rule sorted_sort_key)
  ultimately have "sort (map Name files)
      = map Filename (sort_key Filename (deliver (nat c) entries (completion E)))"
    by (rule properties_for_sort)
  then show ?thesis by (simp add: run_pool_def hf Let_def)
qed

lemma before_log_names:
  assumes "os_ReadDir E w folder = (Inr des, w1)" "before_log E w folder c = Some (records, w2)"
  shows "map Filename records = sort (map Name (collect_files des))"
proof -
  from assms(2) obtain des' where rd: "os_ReadDir E w folder = (Inr des', advance w)"
    and c: "0 < c \<or> collect_files des' = []"
    and rp: "run_pool E (advance w) folder c (collect_files des') = (records, w2)"
    by (rule before_log_Some)
  from rd assms(1) have "des' = des" by simp
  with c rp run_pool_names [of c "collect_files des" E "advance w" folder] show ?thesis by simp
qed

lemma os_ReadDir_completion [simp]: "os_ReadDir (E\<lparr>completion := order\<rparr>) w dir = os_ReadDir E w dir"
  by (simp add: os_ReadDir_def)



lemma sibling_not_log:
  assumes "strings_HasPrefix name (targetPrefix ok)"
  shows "filepath_Join (filepath_Dir folder) name \<noteq> filepath_Join folder ''log.tmp''"
    and "filepath_Join (filepath_Dir folder) name \<noteq> filepath_Join folder ''log.json''"
proof -
  have "name \<noteq> ''log.tmp''" "name \<noteq> ''log.json''"
    using assms by (auto simp: strings_HasPrefix_def targetPrefix_def split: if_splits)
  moreover have "length (filepath_Join (filepath_Dir folder) name) \<noteq> length (filepath_Join folder x)"
    if "folder \<noteq> []" for x
    using that by (simp add: filepath_Join_def filepath_Dir_def)
  ultimately show "filepath_Join (filepath_Dir folder) name \<noteq> filepath_Join folder ''log.tmp''"
    and "filepath_Join (filepath_Dir folder) name \<noteq> filepath_Join folder ''log.json''"
    by (cases "folder = []"; (simp add: filepath_Join_def filepath_Dir_def; fail | metis))+
qed

lemma folder_not_log:
  "folder \<noteq> filepath_Join folder x"
  by (simp add: filepath_Join_def)

lemma finalized_from_start:
  assumes "before_log E w folder c = Some (records, w2)"
    and "snd (writeLogAtomic E w2 folder records) = w3"
    and "renameFolderSafe E w3 folder ok = (None, w')"
  shows "\<exists>name. strings_HasPrefix name (targetPrefix ok) \<and> renamed_to w w' folder name"
proof -
  have same: "lookup w3 q = lookup w q"
    if "q \<noteq> filepath_Join folder ''log.tmp''" "q \<noteq> filepath_Join folder ''log.json''" for q
    using writeLogAtomic_other [OF that, of E w2 records] assms(2)
      before_log_lookup(1) [OF assms(1), of q] by simp
  have dir: "lookup w3 folder = Some DirN"
    using same [of folder] before_log_lookup(2) [OF assms(1)] folder_not_log by simp
  from renameFolderSafe_done [OF assms(3) dir] obtain name
    where n: "strings_HasPrefix name (targetPrefix ok)" "renamed_to w3 w' folder name" by blast
  have "lookup w3 (filepath_Join (filepath_Dir folder) name) = lookup w (filepath_Join (filepath_Dir folder) name)"
    using same sibling_not_log [OF n(1)] by simp
  moreover have "lookup w3 folder = lookup w folder" using same [of folder] folder_not_log by simp
  ultimately have "renamed_to w w' folder name" using n(2) by (simp add: renamed_to_def)
  with n(1) show ?thesis by blast
qed

text \<open>
  Claim C2 says the folder is renamed with the done marker if and only if every record
  has status \<open>success\<close>. In the example both files of \<open>r_1\<close> are hashed with success, the
  temporary log file cannot be created, and the folder is renamed \<open>f_1\<close>: a failed log
  write forces the failed marker whatever the records say (lines 162 to 170).
\<close>

theorem processFolder_failed_marker_all_success:
  "map_option (\<lambda>(rs, w). map Status rs)
     (before_log (ex_env [CreateOp [''in'', ''r_1'', ''log.tmp'']] []) ex_world [''in'', ''r_1''] 2)
     = Some [''success'', ''success''] \<and>
   fst (processFolder (ex_env [CreateOp [''in'', ''r_1'', ''log.tmp'']] []) ex_world [''in'', ''r_1''] 2)
     = Returned (Some ''failed to write log: create tmp log: permission denied'') \<and>
   lookup (snd (processFolder (ex_env [CreateOp [''in'', ''r_1'', ''log.tmp'']] []) ex_world
       [''in'', ''r_1''] 2)) [''in'', ''f_1''] = Some DirN \<and>
   lookup (snd (processFolder (ex_env [CreateOp [''in'', ''r_1'', ''log.tmp'']] []) ex_world
       [''in'', ''r_1''] 2)) [''in'', ''d_1''] = None"
  by code_simp

lemma marker_of_verdict:
  assumes "strings_HasPrefix name (targetPrefix ok)"
  shows "(strings_HasPrefix name ''d_'' \<longleftrightarrow> ok) \<and> (strings_HasPrefix name ''f_'' \<longleftrightarrow> \<not> ok)"
  using assms by (cases ok) (auto simp: strings_HasPrefix_def targetPrefix_def)

text \<open>
  Claim C2 as amended: the aggregate verdict of a folder, the value \<open>allSuccess\<close> that
  lines 152 to 159 compute from its records, is done exactly when every record has
  status \<open>success\<close>, and failed otherwise; a folder with no files has no records, hence
  verdict done. Whenever \<open>processFolder\<close> returns without error (the log was published
  and the rename went through), the folder has been renamed with the done marker \<open>d_\<close>
  if and only if every record has status \<open>success\<close>, and with the failed marker \<open>f_\<close>
  otherwise.
\<close>
theorem processFolder_verdict:
  "(allSuccess_loop records \<longleftrightarrow> (\<forall>r\<in>set records. Status r = ''success'')) \<and>
   allSuccess_loop [] \<and>
   (\<forall>des w1 w2. os_ReadDir E w folder = (Inr des, w1) \<and>
      before_log E w folder c = Some (records, w2) \<and> collect_files des = [] \<longrightarrow> records = []) \<and>
   (processFolder E w folder c = (Returned None, w') \<longrightarrow>
      (\<exists>rs w2 name. before_log E w folder c = Some (rs, w2) \<and>
         renamed_to w w' folder name \<and>
         (strings_HasPrefix name ''d_'' \<longleftrightarrow> (\<forall>r\<in>set rs. Status r = ''success'')) \<and>
         (strings_HasPrefix name ''f_'' \<longleftrightarrow> \<not> (\<forall>r\<in>set rs. Status r = ''success''))))"
proof -
  have 1: "allSuccess_loop records \<longleftrightarrow> (\<forall>r\<in>set records. Status r = ''success'')"
    by (rule allSuccess_loop_iff)
  have 2: "allSuccess_loop []" by simp
  have 3: "records = []"
    if "os_ReadDir E w folder = (Inr des, w1)" "before_log E w folder c = Some (records, w2)"
      "collect_files des = []" for des w1 w2
    using before_log_names [OF that(1,2)] that(3) by simp
  have 4: "\<exists>rs w2 name. before_log E w folder c = Some (rs, w2) \<and>
         renamed_to w w' folder name \<and>
         (strings_HasPrefix name ''d_'' \<longleftrightarrow> (\<forall>r\<in>set rs. Status r = ''success'')) \<and>
         (strings_HasPrefix name ''f_'' \<longleftrightarrow> \<not> (\<forall>r\<in>set rs. Status r = ''success''))"
    if "processFolder E w folder c = (Returned None, w')"
  proof -
    from that obtain rs w2 w3 where bl: "before_log E w folder c = Some (rs, w2)"
      and wl: "writeLogAtomic E w2 folder rs = (None, w3)"
      and rn: "renameFolderSafe E w3 folder (allSuccess_loop rs) = (None, w')"
      by (rule processFolder_returned_nil)
    from wl have w3: "snd (writeLogAtomic E w2 folder rs) = w3" by simp
    from finalized_from_start [OF bl w3 rn] obtain name
      where n: "strings_HasPrefix name (targetPrefix (allSuccess_loop rs))"
        "renamed_to w w' folder name" by blast
    from marker_of_verdict [OF n(1)]
    have "(strings_HasPrefix name ''d_'' \<longleftrightarrow> (\<forall>r\<in>set rs. Status r = ''success'')) \<and>
        (strings_HasPrefix name ''f_'' \<longleftrightarrow> \<not> (\<forall>r\<in>set rs. Status r = ''success''))"
      by (simp add: allSuccess_loop_iff)
    with bl n(2) show ?thesis by blast
  qed
  show ?thesis using 1 2 3 4 by blast
qed

theorem processFolder_verdict_witness:
  "fst (processFolder (ex_env [] [1]) ex_world [''in'', ''r_1''] 2) = Returned None \<and>
   map_option (\<lambda>(rs, w). map Status rs) (before_log (ex_env [] [1]) ex_world [''in'', ''r_1''] 2)
     = Some [''success'', ''success''] \<and>
   (\<exists>name. strings_HasPrefix name ''d_'' \<and>
      renamed_to ex_world (snd (processFolder (ex_env [] [1]) ex_world [''in'', ''r_1''] 2))
        [''in'', ''r_1''] name) \<and>
   fst (processFolder (ex_env [OpenOp [''in'', ''r_1'', ''b.txt'']] []) ex_world [''in'', ''r_1''] 2)
     = Returned None \<and>
   map_option (\<lambda>(rs, w). map Status rs)
     (before_log (ex_env [OpenOp [''in'', ''r_1'', ''b.txt'']] []) ex_world [''in'', ''r_1''] 2)
     = Some [''success'', ''error''] \<and>
   (\<exists>name. strings_HasPrefix name ''f_'' \<and>
      renamed_to ex_world
        (snd (processFolder (ex_env [OpenOp [''in'', ''r_1'', ''b.txt'']] []) ex_world [''in'', ''r_1''] 2))
        [''in'', ''r_1''] name) \<and>
   fst (processFolder (ex_env [] []) ex_world [''in'', ''r_3''] 1) = Returned None \<and>
   map_option fst (before_log (ex_env [] []) ex_world [''in'', ''r_3''] 1) = Some [] \<and>
   (\<exists>name. strings_HasPrefix name ''d_'' \<and>
      renamed_to ex_world (snd (processFolder (ex_env [] []) ex_world [''in'', ''r_3''] 1))
        [''in'', ''r_3''] name)"
proof -
  let ?E = "ex_env [] [1]"
  let ?F = "ex_env [OpenOp [''in'', ''r_1'', ''b.txt'']] []"
  let ?G = "ex_env [] []"
  let ?d = "[''in'', ''r_1'']"
  let ?e = "[''in'', ''r_3'']"
  have e1: "fst (processFolder ?E ex_world ?d 2) = Returned None" by code_simp
  have s1: "map_option (\<lambda>(rs, w). map Status rs) (before_log ?E ex_world ?d 2)
      = Some [''success'', ''success'']" by code_simp
  have e2: "fst (processFolder ?F ex_world ?d 2) = Returned None" by code_simp
  have s2: "map_option (\<lambda>(rs, w). map Status rs) (before_log ?F ex_world ?d 2)
      = Some [''success'', ''error'']" by code_simp
  have e3: "fst (processFolder ?G ex_world ?e 1) = Returned None" by code_simp
  have s3: "map_option fst (before_log ?G ex_world ?e 1) = Some []" by code_simp
  have p1: "processFolder ?E ex_world ?d 2 = (Returned None, snd (processFolder ?E ex_world ?d 2))"
    using e1 by (metis prod.collapse)
  have p2: "processFolder ?F ex_world ?d 2 = (Returned None, snd (processFolder ?F ex_world ?d 2))"
    using e2 by (metis prod.collapse)
  have p3: "processFolder ?G ex_world ?e 1 = (Returned None, snd (processFolder ?G ex_world ?e 1))"
    using e3 by (metis prod.collapse)
  have r1: "\<exists>name. strings_HasPrefix name ''d_'' \<and>
      renamed_to ex_world (snd (processFolder ?E ex_world ?d 2)) ?d name"
  proof -
    note v = processFolder_verdict [where records = "[]" and E = "?E" and w = ex_world
        and folder = "?d" and c = 2 and w' = "snd (processFolder ?E ex_world ?d 2)",
        THEN conjunct2, THEN conjunct2, THEN conjunct2, THEN mp, OF p1]
    from v obtain rs w2 name
      where bl: "before_log ?E ex_world ?d 2 = Some (rs, w2)"
        and n: "renamed_to ex_world (snd (processFolder ?E ex_world ?d 2)) ?d name"
          "strings_HasPrefix name ''d_'' \<longleftrightarrow> (\<forall>r\<in>set rs. Status r = ''success'')"
      by blast
    from bl s1 have "map Status rs = [''success'', ''success'']" by simp
    then have "set (map Status rs) = set [''success'', ''success'']" by simp
    then have "Status ` set rs = {''success''}" by simp
    then have "\<forall>r\<in>set rs. Status r = ''success''" by blast
    with n show ?thesis by blast
  qed
  have r2: "\<exists>name. strings_HasPrefix name ''f_'' \<and>
      renamed_to ex_world (snd (processFolder ?F ex_world ?d 2)) ?d name"
  proof -
    note v = processFolder_verdict [where records = "[]" and E = "?F" and w = ex_world
        and folder = "?d" and c = 2 and w' = "snd (processFolder ?F ex_world ?d 2)",
        THEN conjunct2, THEN conjunct2, THEN conjunct2, THEN mp, OF p2]
    from v obtain rs w2 name
      where bl: "before_log ?F ex_world ?d 2 = Some (rs, w2)"
        and n: "renamed_to ex_world (snd (processFolder ?F ex_world ?d 2)) ?d name"
          "strings_HasPrefix name ''f_'' \<longleftrightarrow> \<not> (\<forall>r\<in>set rs. Status r = ''success'')"
      by blast
    from bl s2 have "map Status rs = [''success'', ''error'']" by simp
    then have "set (map Status rs) = set [''success'', ''error'']" by simp
    then have "''error'' \<in> Status ` set rs" by simp
    then obtain x where "x \<in> set rs" "Status x = ''error''" by auto
    moreover have "''error'' \<noteq> ''success''" by simp
    ultimately have "\<not> (\<forall>r\<in>set rs. Status r = ''success'')" by metis
    with n show ?thesis by blast
  qed
  have r3: "\<exists>name. strings_HasPrefix name ''d_'' \<and>
      renamed_to ex_world (snd (processFolder ?G ex_world ?e 1)) ?e name"
  proof -
    note v = processFolder_verdict [where records = "[]" and E = "?G" and w = ex_world
        and folder = "?e" and c = 1 and w' = "snd (processFolder ?G ex_world ?e 1)",
        THEN conjunct2, THEN conjunct2, THEN conjunct2, THEN mp, OF p3]
    from v obtain rs w2 name
      where bl: "before_log ?G ex_world ?e 1 = Some (rs, w2)"
        and n: "renamed_to ex_world (snd (processFolder ?G ex_world ?e 1)) ?e name"
          "strings_HasPrefix name ''d_'' \<longleftrightarrow> (\<forall>r\<in>set rs. Status r = ''success'')"
      by blast
    from bl s3 have "rs = []" by simp
    with n show ?thesis by auto
  qed
  show ?thesis using e1 s1 r1 e2 s2 r2 e3 s3 r3 by blast
qed

text \<open>
  Claim C3 says a folder whose log cannot be published is never left with the pending
  marker. In the example neither the temporary log file can be created nor the folder
  renamed: \<open>processFolder\<close> reports both errors (line 167) and \<open>r_1\<close> keeps its name.
\<close>

theorem processFolder_log_and_rename_fail:
  "fst (processFolder
         (ex_env [CreateOp [''in'', ''r_1'', ''log.tmp''], RenameOp [''in'', ''r_1''] [''in'', ''f_1'']] [])
         ex_world [''in'', ''r_1''] 2)
     = Returned (Some (''logging error: create tmp log: permission denied; '' @
                       ''folder rename error: os.Rename in/r_1 -> in/f_1: permission denied'')) \<and>
   lookup (snd (processFolder
         (ex_env [CreateOp [''in'', ''r_1'', ''log.tmp''], RenameOp [''in'', ''r_1''] [''in'', ''f_1'']] [])
         ex_world [''in'', ''r_1''] 2)) [''in'', ''r_1''] = Some DirN \<and>
   lookup (snd (processFolder
         (ex_env [CreateOp [''in'', ''r_1'', ''log.tmp''], RenameOp [''in'', ''r_1''] [''in'', ''f_1'']] [])
         ex_world [''in'', ''r_1''] 2)) [''in'', ''f_1''] = None"
  by code_simp

text \<open>
  Claim C3 as amended: when the log of a folder cannot be published, \<open>renameFolderSafe\<close>
  is still called with verdict failed, whatever the records say, and \<open>processFolder\<close>
  returns an error. If that rename goes through, the folder has been renamed with the
  marker \<open>f_\<close>; if the rename fails too, both errors are reported and the folder keeps
  its name.
\<close>

theorem processFolder_log_failure:
  assumes "before_log E w folder c = Some (records, w2)"
    and "writeLogAtomic E w2 folder records = (Some err, w3)"
  shows "\<exists>e w'. processFolder E w folder c = (Returned (Some e), w') \<and>
           w' = snd (renameFolderSafe E w3 folder False) \<and>
           (e = ''failed to write log: '' @ err \<and>
              (\<exists>name. strings_HasPrefix name ''f_'' \<and> renamed_to w w' folder name) \<or>
            (\<exists>renameErr. fst (renameFolderSafe E w3 folder False) = Some renameErr \<and>
               e = ''logging error: '' @ err @ ''; folder rename error: '' @ renameErr \<and>
               lookup w' folder = Some DirN))"
proof -
  obtain r w' where rn: "renameFolderSafe E w3 folder False = (r, w')"
    by (cases "renameFolderSafe E w3 folder False")
  from assms(2) have w3: "snd (writeLogAtomic E w2 folder records) = w3" by simp
  have dir: "lookup w3 folder = Some DirN"
    using writeLogAtomic_other [where q = folder and folder = folder and E = E and w = w2
        and rs = records] folder_not_log w3
      before_log_lookup(1) [OF assms(1), of folder] before_log_lookup(2) [OF assms(1)] by simp
  show ?thesis
  proof (cases r)
    case None
    with rn have rn': "renameFolderSafe E w3 folder False = (None, w')" by simp
    from finalized_from_start [OF assms(1) w3 rn'] obtain name
      where "strings_HasPrefix name ''f_''" "renamed_to w w' folder name"
      by (auto simp: targetPrefix_def)
    moreover have "processFolder E w folder c = (Returned (Some (''failed to write log: '' @ err)), w')"
      by (simp add: processFolder_after_scan [OF assms(1)] assms(2) rn')
    ultimately show ?thesis using rn' by auto
  next
    case (Some renameErr)
    with rn have rn': "renameFolderSafe E w3 folder False = (Some renameErr, w')" by simp
    have "lookup w' folder = Some DirN" using renameFolderSafe_failed [OF rn', of folder] dir by simp
    moreover have "processFolder E w folder c =
        (Returned (Some (''logging error: '' @ err @ ''; folder rename error: '' @ renameErr)), w')"
      by (simp add: processFolder_after_scan [OF assms(1)] assms(2) rn')
    ultimately show ?thesis using rn' by auto
  qed
qed

theorem processFolder_log_failure_witness:
  "before_log (ex_env [CreateOp [''in'', ''r_1'', ''log.tmp'']] []) ex_world [''in'', ''r_1''] 2 \<noteq> None \<and>
   fst (writeLogAtomic (ex_env [CreateOp [''in'', ''r_1'', ''log.tmp'']] [])
         (snd (the (before_log (ex_env [CreateOp [''in'', ''r_1'', ''log.tmp'']] []) ex_world
            [''in'', ''r_1''] 2)))
         [''in'', ''r_1'']
         (fst (the (before_log (ex_env [CreateOp [''in'', ''r_1'', ''log.tmp'']] []) ex_world
            [''in'', ''r_1''] 2))))
     = Some ''create tmp log: permission denied'' \<and>
   fst (processFolder (ex_env [CreateOp [''in'', ''r_1'', ''log.tmp'']] []) ex_world [''in'', ''r_1''] 2)
     = Returned (Some ''failed to write log: create tmp log: permission denied'') \<and>
   (\<exists>name. strings_HasPrefix name ''f_'' \<and>
      renamed_to ex_world
        (snd (processFolder (ex_env [CreateOp [''in'', ''r_1'', ''log.tmp'']] []) ex_world
           [''in'', ''r_1''] 2))
        [''in'', ''r_1''] name)"
proof -
  let ?E = "ex_env [CreateOp [''in'', ''r_1'', ''log.tmp'']] []"
  let ?d = "[''in'', ''r_1'']"
  let ?b = "the (before_log ?E ex_world ?d 2)"
  have b: "before_log ?E ex_world ?d 2 = Some (fst ?b, snd ?b)" by code_simp
  have l: "fst (writeLogAtomic ?E (snd ?b) ?d (fst ?b)) = Some ''create tmp log: permission denied''"
    by code_simp
  then have l': "writeLogAtomic ?E (snd ?b) ?d (fst ?b)
      = (Some ''create tmp log: permission denied'', snd (writeLogAtomic ?E (snd ?b) ?d (fst ?b)))"
    by (metis prod.collapse)
  have p: "fst (processFolder ?E ex_world ?d 2)
      = Returned (Some ''failed to write log: create tmp log: permission denied'')" by code_simp
  from processFolder_log_failure [OF b l'] obtain e w'
    where pf: "processFolder ?E ex_world ?d 2 = (Returned (Some e), w')"
      and alt: "e = ''failed to write log: '' @ ''create tmp log: permission denied'' \<and>
              (\<exists>name. strings_HasPrefix name ''f_'' \<and> renamed_to ex_world w' ?d name) \<or>
            (\<exists>renameErr. e = ''logging error: '' @ ''create tmp log: permission denied'' @
               ''; folder rename error: '' @ renameErr)"
    by blast
  from pf p have e: "e = ''failed to write log: create tmp log: permission denied''" by simp
  then have "\<not> (\<exists>renameErr. e = ''logging error: '' @ ''create tmp log: permission denied'' @
               ''; folder rename error: '' @ renameErr)" by simp
  with alt have "\<exists>name. strings_HasPrefix name ''f_'' \<and> renamed_to ex_world w' ?d name" by blast
  moreover from pf have "w' = snd (processFolder ?E ex_world ?d 2)" by simp
  ultimately have r: "\<exists>name. strings_HasPrefix name ''f_'' \<and>
      renamed_to ex_world (snd (processFolder ?E ex_world ?d 2)) ?d name" by simp
  have nz: "before_log ?E ex_world ?d 2 \<noteq> None" by code_simp
  show ?thesis using nz l p r by blast
qed





subsection \<open>The worker pool\<close>

lemma pool_step_tokens:
  assumes "pool_step cap s s'" "sem s = length (tasks s)" "sem s \<le> cap"
  shows "sem s' = length (tasks s') \<and> sem s' \<le> cap"
  using assms
proof (cases rule: pool_step.cases)
  case (acquire_go f fs)
  with assms show ?thesis by simp
next
  case (enter i f)
  with assms show ?thesis by simp
next
  case (send i f status)
  with assms show ?thesis by simp
next
  case (release i f)
  with assms show ?thesis by auto
qed

lemma reachable_tokens:
  "reachable cap files s \<Longrightarrow> sem s = length (tasks s) \<and> sem s \<le> cap"
proof (induction rule: reachable.induct)
  case start
  show ?case by (simp add: pool_init_def)
next
  case (step s s')
  then show ?case using pool_step_tokens by blast
qed

lemma pool_step_grows:
  assumes "pool_step cap s s'" "length (tasks s) < length (tasks s')"
  shows "sem s < cap \<and> sem s' = Suc (sem s)"
  using assms by (cases rule: pool_step.cases) auto

text \<open>
  Claim C8: while a folder is processed, never more than \<open>concurrency\<close> calls of
  \<open>processFile\<close> run at the same time. Every task that has been started and has not
  released holds one token of the semaphore, a task is only started when a token is
  free, and a task that has sent its entry, of whatever status, can always release.
\<close>

theorem pool_bound:
  assumes "reachable cap files s"
  shows "hashing s \<le> cap \<and> sem s = length (tasks s) \<and> sem s \<le> cap \<and>
         (\<forall>s'. pool_step cap s s' \<longrightarrow> length (tasks s) < length (tasks s') \<longrightarrow>
            sem s < cap \<and> sem s' = Suc (sem s)) \<and>
         (\<forall>i f. i < length (tasks s) \<and> tasks s ! i = (f, Sent) \<longrightarrow>
            (\<exists>s'. pool_step cap s s' \<and> sem s' = sem s - 1 \<and>
               tasks s' = take i (tasks s) @ drop (Suc i) (tasks s)))"
proof -
  from assms have t: "sem s = length (tasks s)" "sem s \<le> cap"
    using reachable_tokens by blast+
  have "hashing s \<le> length (tasks s)" by (simp add: hashing_def)
  with t have 1: "hashing s \<le> cap" by simp
  have 2: "sem s < cap \<and> sem s' = Suc (sem s)"
    if "pool_step cap s s'" "length (tasks s) < length (tasks s')" for s'
    using that by (rule pool_step_grows)
  have 3: "\<exists>s'. pool_step cap s s' \<and> sem s' = sem s - 1 \<and>
      tasks s' = take i (tasks s) @ drop (Suc i) (tasks s)"
    if "i < length (tasks s)" "tasks s ! i = (f, Sent)" for i f
  proof -
    have "pool_step cap s (s\<lparr>sem := sem s - 1, tasks := take i (tasks s) @ drop (Suc i) (tasks s)\<rparr>)"
      using that by (rule pool_step.release)
    then show ?thesis by force
  qed
  show ?thesis using 1 t 2 3 by blast
qed

theorem pool_bound_witness:
  "reachable 1 [''a.txt'', ''b.txt'']
     \<lparr>todo = [''b.txt''], sem = 1, tasks = [(''a.txt'', Hashing)], resultsCh = []\<rparr> \<and>
   hashing \<lparr>todo = [''b.txt''], sem = 1, tasks = [(''a.txt'', Hashing)], resultsCh = []\<rparr> = 1 \<and>
   hashing \<lparr>todo = [''b.txt''], sem = 1, tasks = [(''a.txt'', Hashing)], resultsCh = []\<rparr> \<le> 1"
proof -
  let ?F = "[''a.txt'', ''b.txt'']"
  let ?S1 = "\<lparr>todo = [''b.txt''], sem = 1, tasks = [(''a.txt'', Spawned)], resultsCh = []\<rparr>"
  let ?S2 = "\<lparr>todo = [''b.txt''], sem = 1, tasks = [(''a.txt'', Hashing)], resultsCh = []\<rparr>"
  have s0: "reachable 1 ?F (pool_init ?F)" by (rule reachable.start)
  have t1: "pool_step 1 (pool_init ?F) ?S1"
    using pool_step.acquire_go [of "pool_init ?F" "''a.txt''" "[''b.txt'']" 1]
    by (simp add: pool_init_def)
  have t2: "pool_step 1 ?S1 ?S2"
    using pool_step.enter [of 0 ?S1 "''a.txt''" 1] by simp
  have r: "reachable 1 ?F ?S2"
    using reachable.step [OF reachable.step [OF s0 t1] t2] .
  have h: "hashing ?S2 = 1" by (simp add: hashing_def)
  from pool_bound [OF r] have "hashing ?S2 \<le> 1" by blast
  with r h show ?thesis by blast
qed

end
